theory Spec2Isabelle
  imports Complex_Main
begin

text \<open>
  A model of the telemetry collector \<^verbatim>\<open>Chyavan\<close>: redaction of captured text, classification
  of capture targets, the debounce wrapper, the event buffer with its threshold flush, the
  delivery of a batch with requeue on failure, and construction. Each function of the
  program is a function of the same name here; what a method reads from the page is an
  argument, what it changes is a returned state, and what it throws is a value.
\<close>

section \<open>Strings of the host language\<close>

text \<open>
  A JavaScript string is a sequence of code units; \<open>length\<close> counts them. The model uses
  \<^typ>\<open>string\<close>, so a \<^typ>\<open>char\<close> stands for one code unit in the range 0..255
  (ASCII and Latin-1). All literals of the program are ASCII.
\<close>

definition digit_char :: "nat \<Rightarrow> char" where
  "digit_char n = char_of (48 + n)"

text \<open>
  Number-to-string conversion of a non-negative integer, as performed by a template literal
  \<^verbatim>\<open>`${text.length}`\<close>: decimal digits, most significant first, no leading zero.
\<close>

fun dec :: "nat \<Rightarrow> string" where
  "dec n = (if n < 10 then [digit_char n] else dec (n div 10) @ [digit_char (n mod 10)])"

declare dec.simps [simp del]

text \<open>The character class \<^verbatim>\<open>\d\<close> of a JavaScript regular expression: exactly \<open>0\<close>..\<open>9\<close>.\<close>

definition is_digit :: "char \<Rightarrow> bool" where
  "is_digit c = (48 \<le> (of_char c :: nat) \<and> (of_char c :: nat) \<le> 57)"

text \<open>
  \<^verbatim>\<open>/^\d+$/.test(text)\<close>: without the multiline flag \<^verbatim>\<open>^\<close> and \<^verbatim>\<open>$\<close> match only at the two
  ends of the input, so the test holds exactly for a non-empty string of digits.
\<close>

definition onlyDigits_test :: "string \<Rightarrow> bool" where
  "onlyDigits_test text = (text \<noteq> [] \<and> list_all is_digit text)"

text \<open>
  \<^verbatim>\<open>String.prototype.toLowerCase\<close> on one code unit of the range 0..255: \<open>A\<close>..\<open>Z\<close> and
  the Latin-1 capitals U+00C0..U+00DE (U+00D7, the multiplication sign, excepted) move up
  by 32; every other code unit is unchanged.
\<close>

definition toLowerChar :: "char \<Rightarrow> char" where
  "toLowerChar c = (let n = (of_char c :: nat) in
     if (65 \<le> n \<and> n \<le> 90) \<or> (192 \<le> n \<and> n \<le> 222 \<and> n \<noteq> 215)
     then char_of (n + 32) else c)"

definition toLowerCase :: "string \<Rightarrow> string" where
  "toLowerCase s = map toLowerChar s"

text \<open>\<^verbatim>\<open>s.startsWith(w)\<close> and \<^verbatim>\<open>s.includes(w)\<close>.\<close>

fun startsWith :: "string \<Rightarrow> string \<Rightarrow> bool" where
  "startsWith s [] = True"
| "startsWith [] (w # ws) = False"
| "startsWith (c # cs) (w # ws) = (c = w \<and> startsWith cs ws)"

fun includes_str :: "string \<Rightarrow> string \<Rightarrow> bool" where
  "includes_str [] w = (w = [])"
| "includes_str (c # cs) w = (startsWith (c # cs) w \<or> includes_str cs w)"

text \<open>\<^verbatim>\<open>x || ''\<close> for an attribute that is a string or absent (\<^verbatim>\<open>undefined\<close>, \<^verbatim>\<open>null\<close>).\<close>

definition or_empty :: "string option \<Rightarrow> string" where
  "or_empty x = (case x of None \<Rightarrow> [] | Some s \<Rightarrow> s)"

text \<open>Truthiness of a value that is a string or \<^verbatim>\<open>null\<close>: the empty string is falsy.\<close>

definition truthy :: "string option \<Rightarrow> bool" where
  "truthy x = (case x of None \<Rightarrow> False | Some s \<Rightarrow> s \<noteq> [])"


section \<open>Redaction\<close>

text \<open>
  \<^verbatim>\<open>sanitizeText(text)\<close>, method of the class \<^verbatim>\<open>Chyavan\<close>:
  \<^verbatim>\<open>
    if (!text) return '';
    const onlyDigits = /^\d+$/;
    if (onlyDigits.test(text)) return `[${text.length} digits]`;
    return `[${text.length} characters]`;
  \<close>
\<close>

definition sanitizeText :: "string \<Rightarrow> string" where
  "sanitizeText text =
     (if text = [] then []
      else if onlyDigits_test text then ''['' @ dec (length text) @ '' digits]''
      else ''['' @ dec (length text) @ '' characters]'')"

text \<open>
  The function of the same name in the stand-alone script \<^verbatim>\<open>src/index.js\<close> has the same
  structure and another template: \<^verbatim>\<open>`Typed [${text.length}] digits`\<close> and
  \<^verbatim>\<open>`Typed [${text.length}] characters`\<close>.
\<close>

definition sanitizeText_script :: "string \<Rightarrow> string" where
  "sanitizeText_script text =
     (if text = [] then []
      else if onlyDigits_test text then ''Typed ['' @ dec (length text) @ ''] digits''
      else ''Typed ['' @ dec (length text) @ ''] characters'')"


section \<open>Classification of capture targets\<close>

text \<open>
  A capture target is a DOM element, read through four properties. A property that is
  absent (\<^verbatim>\<open>undefined\<close>) is \<open>None\<close>.
\<close>

record element =
  tagName :: string
  el_type :: "string option"
  el_name :: "string option"
  el_autocomplete :: "string option"

text \<open>
  \<^verbatim>\<open>isSensitiveField(el)\<close>, method of the class \<^verbatim>\<open>Chyavan\<close>. \<^verbatim>\<open>if (!el) return false\<close> is the
  \<open>None\<close> case; the three attributes are lower-cased before they are compared.
\<close>

definition isSensitiveField :: "element option \<Rightarrow> bool" where
  "isSensitiveField el = (case el of
       None \<Rightarrow> False
     | Some e \<Rightarrow>
        (let type = toLowerCase (or_empty (el_type e));
             name = toLowerCase (or_empty (el_name e));
             autocomplete = toLowerCase (or_empty (el_autocomplete e))
         in type = ''password'' \<or>
            type = ''hidden'' \<or>
            includes_str name ''card'' \<or>
            includes_str name ''cvv'' \<or>
            includes_str name ''password'' \<or>
            includes_str name ''ssn'' \<or>
            includes_str name ''secret'' \<or>
            includes_str name ''token'' \<or>
            startsWith autocomplete ''cc-''))"

text \<open>
  The function of the same name in the stand-alone script \<^verbatim>\<open>src/index.js\<close>: the same
  tests without \<^verbatim>\<open>name.includes("secret")\<close> and \<^verbatim>\<open>name.includes("token")\<close>.
  (\<^verbatim>\<open>el.type ? el.type.toLowerCase() : ""\<close> is \<^verbatim>\<open>(el.type || '').toLowerCase()\<close>.)
\<close>

definition isSensitiveField_script :: "element option \<Rightarrow> bool" where
  "isSensitiveField_script el = (case el of
       None \<Rightarrow> False
     | Some e \<Rightarrow>
        (let type = toLowerCase (or_empty (el_type e));
             name = toLowerCase (or_empty (el_name e));
             autocomplete = toLowerCase (or_empty (el_autocomplete e))
         in type = ''password'' \<or>
            type = ''hidden'' \<or>
            includes_str name ''card'' \<or>
            includes_str name ''cvv'' \<or>
            includes_str name ''password'' \<or>
            includes_str name ''ssn'' \<or>
            startsWith autocomplete ''cc-''))"

text \<open>
  The vocabulary of the specification, and what it means for a string to equal, contain or
  start with a word when case is ignored.
\<close>

definition sensitive_words :: "string list" where
  "sensitive_words = [''card'', ''cvv'', ''password'', ''ssn'', ''secret'', ''token'']"

definition same_ignoring_case :: "string \<Rightarrow> string \<Rightarrow> bool" where
  "same_ignoring_case a b = (toLowerCase a = toLowerCase b)"

definition contains_ignoring_case :: "string \<Rightarrow> string \<Rightarrow> bool" where
  "contains_ignoring_case s w = (\<exists>p u q. s = p @ u @ q \<and> same_ignoring_case u w)"

definition starts_ignoring_case :: "string \<Rightarrow> string \<Rightarrow> bool" where
  "starts_ignoring_case s w = (\<exists>u q. s = u @ q \<and> same_ignoring_case u w)"

text \<open>
  The classification as the specification words it: the type attribute \<^emph>\<open>equals\<close>
  \<open>password\<close> or \<open>hidden\<close>, the name contains a word of the vocabulary ignoring case, the
  autocomplete attribute \<^emph>\<open>starts with\<close> \<open>cc-\<close>.
\<close>

definition classify_stated :: "element option \<Rightarrow> bool" where
  "classify_stated el = (case el of
       None \<Rightarrow> False
     | Some e \<Rightarrow>
         el_type e = Some ''password'' \<or> el_type e = Some ''hidden'' \<or>
         (\<exists>w \<in> set sensitive_words. contains_ignoring_case (or_empty (el_name e)) w) \<or>
         (\<exists>q. el_autocomplete e = Some (''cc-'' @ q)))"


section \<open>Numbers of the host language\<close>

text \<open>
  A JavaScript number is an IEEE 754 double: a finite value, which is a rational number,
  one of the two infinities, or \<open>NaN\<close>. The sign of zero is not modelled: \<open>-0\<close> and \<open>0\<close> are
  the one value \<open>Num 0\<close>, as they are for \<^verbatim>\<open>===\<close>.
\<close>

datatype jsnum = Num rat | PosInfinity | NegInfinity | NaN

text \<open>
  The result of an arithmetic operation is the exact result rounded to the nearest double,
  ties to the even significand. \<open>bit_length n\<close> is the number of binary digits of \<open>n\<close>,
  \<open>pow2 k\<close> is \<open>2\<^sup>k\<close>, and \<open>binade a\<close> is the exponent \<open>e\<close> with \<open>2\<^sup>e \<le> a < 2\<^sup>e\<^sup>+\<^sup>1\<close> of a
  positive \<open>a\<close>.
\<close>

function bit_length :: "int \<Rightarrow> int" where
  "bit_length n = (if n \<le> 0 then 0 else 1 + bit_length (n div 2))"
  by pat_completeness auto
termination
  by (relation "measure nat") auto

declare bit_length.simps [simp del]

definition pow2 :: "int \<Rightarrow> rat" where
  "pow2 k = (if 0 \<le> k then 2 ^ nat k else 1 / 2 ^ nat (- k))"

definition binade :: "rat \<Rightarrow> int" where
  "binade a =
     (case quotient_of a of
        (p, q) \<Rightarrow>
          (let k = bit_length p - bit_length q
           in if pow2 k \<le> a then k else k - 1))"

definition round_half_even :: "rat \<Rightarrow> int" where
  "round_half_even m =
     (let f = \<lfloor>m\<rfloor>; r = m - of_int f
      in if r < 1 / 2 then f else if 1 / 2 < r then f + 1
         else if even f then f else f + 1)"

text \<open>
  \<open>fl x\<close> is the double nearest to the rational \<open>x\<close>. A double has 53 significant bits, so
  in the binade \<open>e\<close> the doubles are the multiples of \<open>2\<^sup>e\<^sup>-\<^sup>5\<^sup>2\<close>; below \<open>2\<^sup>-\<^sup>1\<^sup>0\<^sup>2\<^sup>2\<close> they are
  the multiples of \<open>2\<^sup>-\<^sup>1\<^sup>0\<^sup>7\<^sup>4\<close>; a result that rounds to \<open>2\<^sup>1\<^sup>0\<^sup>2\<^sup>4\<close> or more is infinite.
\<close>

definition fl :: "rat \<Rightarrow> jsnum" where
  "fl x =
     (if x = 0 then Num 0
      else
        let a = \<bar>x\<bar>;
            e = max (binade a) (- 1022);
            quantum = pow2 (e - 52);
            y = of_int (round_half_even (a / quantum)) * quantum
        in if pow2 1024 \<le> y then (if 0 < x then PosInfinity else NegInfinity)
           else Num (if 0 < x then y else - y))"

definition is_neg :: "jsnum \<Rightarrow> bool" where
  "is_neg x = (case x of Num a \<Rightarrow> a < 0 | NegInfinity \<Rightarrow> True | _ \<Rightarrow> False)"

definition signed_inf :: "bool \<Rightarrow> jsnum" where
  "signed_inf negative = (if negative then NegInfinity else PosInfinity)"

text \<open>\<^verbatim>\<open>x - y\<close>.\<close>

fun js_sub :: "jsnum \<Rightarrow> jsnum \<Rightarrow> jsnum" where
  "js_sub NaN y = NaN"
| "js_sub x NaN = NaN"
| "js_sub (Num a) (Num b) = fl (a - b)"
| "js_sub (Num a) y = signed_inf (\<not> is_neg y)"
| "js_sub x (Num b) = x"
| "js_sub x y = (if is_neg x = is_neg y then NaN else x)"

text \<open>
  \<^verbatim>\<open>x / y\<close>: no exception is raised for a zero divisor; \<open>0 / 0\<close> is \<open>NaN\<close> and \<open>a / 0\<close> is
  infinite with the sign of \<open>a\<close> (a zero divisor is taken to be \<open>+0\<close>, which is what the
  difference of two equal numbers is).
\<close>

fun js_div :: "jsnum \<Rightarrow> jsnum \<Rightarrow> jsnum" where
  "js_div NaN y = NaN"
| "js_div x NaN = NaN"
| "js_div (Num a) (Num b) =
     (if b = 0 then (if a = 0 then NaN else signed_inf (a < 0)) else fl (a / b))"
| "js_div (Num a) y = Num 0"
| "js_div x (Num b) = signed_inf (is_neg x \<noteq> (b < 0))"
| "js_div x y = NaN"

text \<open>\<^verbatim>\<open>x * y\<close>.\<close>

fun js_mul :: "jsnum \<Rightarrow> jsnum \<Rightarrow> jsnum" where
  "js_mul NaN y = NaN"
| "js_mul x NaN = NaN"
| "js_mul (Num a) (Num b) = fl (a * b)"
| "js_mul (Num a) y = (if a = 0 then NaN else signed_inf ((a < 0) \<noteq> is_neg y))"
| "js_mul x (Num b) = (if b = 0 then NaN else signed_inf (is_neg x \<noteq> (b < 0)))"
| "js_mul x y = signed_inf (is_neg x \<noteq> is_neg y)"

text \<open>
  \<^verbatim>\<open>Math.round\<close>: the nearest integer, ties towards \<open>+\<infinity>\<close>; non-finite values are returned.
  The result is computed exactly (it is a double whenever the argument is).
\<close>

definition Math_round :: "jsnum \<Rightarrow> jsnum" where
  "Math_round x = (case x of Num a \<Rightarrow> Num (of_int \<lfloor>a + 1 / 2\<rfloor>) | _ \<Rightarrow> x)"

text \<open>\<^verbatim>\<open>a || b\<close> on finite numbers: \<open>0\<close> is falsy.\<close>

definition js_or :: "rat \<Rightarrow> rat \<Rightarrow> rat" where
  "js_or a b = (if a \<noteq> 0 then a else b)"

text \<open>\<^verbatim>\<open>n >= x\<close> for an array length \<open>n\<close>: a comparison with \<open>NaN\<close> is false.\<close>

definition js_ge :: "nat \<Rightarrow> jsnum \<Rightarrow> bool" where
  "js_ge n x = (case x of
       Num r \<Rightarrow> r \<le> of_nat n
     | PosInfinity \<Rightarrow> False
     | NegInfinity \<Rightarrow> True
     | NaN \<Rightarrow> False)"


section \<open>Events, configuration and the tracker\<close>

text \<open>
  The repository holds two copies of the class \<^verbatim>\<open>Chyavan\<close>. The model follows the copy with
  the operating modes \<open>console\<close>, \<open>hosted\<close> and \<open>self-hosted\<close>. The other copy has no modes
  (its default endpoint is \<open>/track\<close>); its methods \<open>track\<close>, \<open>flush\<close> and \<open>sendEvents\<close> are the
  ones below without the branches for console mode, and its \<open>isSensitiveField\<close>,
  \<open>sanitizeText\<close>, \<open>debounce\<close> and scroll handler are the same text.

  The payload of an event is an object; it is modelled as the list of its keys and values,
  a value being a number or a string.
\<close>

datatype jsval = JNum jsnum | JStr string

record event =
  ev_type :: string
  ev_timestamp :: nat
  ev_data :: "(string \<times> jsval) list"
  ev_sessionId :: "string option"
  ev_url :: string
  ev_userAgent :: string

text \<open>Exceptions and promise rejections, as values.\<close>

datatype error = HookError | NetworkError | HttpError nat | JsonError | ConsentError | TypeError

text \<open>
  The ambient page that the methods read: \<^verbatim>\<open>localStorage.getItem\<close>, the \<^verbatim>\<open>input\<close> and
  \<^verbatim>\<open>textarea\<close> elements of the document, whether \<^verbatim>\<open>document.body\<close> exists,
  \<^verbatim>\<open>Date.now()\<close>, the nine characters \<^verbatim>\<open>Math.random().toString(36).substr(2, 9)\<close>,
  \<^verbatim>\<open>window.location.href\<close> and \<^verbatim>\<open>navigator.userAgent\<close>.
\<close>

record host =
  localStorage :: "string \<Rightarrow> string option"
  inputs :: "element list"
  hasBody :: bool
  clock :: nat
  random_part :: string
  location_href :: string
  navigator_userAgent :: string

text \<open>
  \<^verbatim>\<open>this.config\<close>. \<open>onFlush\<close> is \<^verbatim>\<open>null\<close> or a function of the batch that returns or throws;
  \<open>consentCheck\<close> is a function that reads the page and returns a boolean or throws.
  \<open>bufferSize\<close> and \<open>flushInterval\<close> are numbers.
\<close>

record config =
  mode :: string
  apiKey :: "string option"
  apiEndpoint :: "string option"
  debug :: bool
  bufferSize :: jsnum
  flushInterval :: jsnum
  onFlush :: "(event list \<Rightarrow> error + unit) option"
  consentCheck :: "host \<Rightarrow> error + bool"

text \<open>The \<^verbatim>\<open>options\<close> argument of the constructor: every key may be absent.\<close>

record options =
  opt_mode :: "string option"
  opt_apiKey :: "string option"
  opt_apiEndpoint :: "string option"
  opt_debug :: "bool option"
  opt_bufferSize :: "jsnum option"
  opt_flushInterval :: "jsnum option"
  opt_onFlush :: "(event list \<Rightarrow> error + unit) option"
  opt_consentCheck :: "(host \<Rightarrow> error + bool) option"

datatype listener = InputListener element | ClickListener | ScrollListener

datatype observer = BodyObserver

text \<open>
  The fields of an instance of the class \<^verbatim>\<open>Chyavan\<close>. \<open>flushTimer\<close> is \<open>None\<close> for \<^verbatim>\<open>null\<close>
  and holds the period of the armed interval timer otherwise.
\<close>

record chyavan =
  config :: config
  eventBuffer :: "event list"
  isTrackingEnabled :: bool
  observers :: "observer list"
  listeners :: "listener list"
  flushTimer :: "jsnum option"
  sessionId :: "string option"

text \<open>
  What a method does to the outside: console output, the call of the \<open>onFlush\<close> hook and
  the \<^verbatim>\<open>fetch\<close> request (URL and the events of the JSON body). Console messages are kept
  without their decoration and without the values that follow the message text.
\<close>

datatype effect =
    ConsoleLog string
  | ConsoleGroup event
  | ConsoleTable "event list"
  | HookCall "event list"
  | FetchPost string "event list"

definition default_or :: "'a \<Rightarrow> 'a option \<Rightarrow> 'a" where
  "default_or d x = (case x of None \<Rightarrow> d | Some v \<Rightarrow> v)"

text \<open>\<^verbatim>\<open>{ mode: 'console', apiKey: null, ..., ...options }\<close>\<close>

definition merge_options :: "options \<Rightarrow> config" where
  "merge_options opts =
     \<lparr> mode = default_or ''console'' (opt_mode opts),
       apiKey = opt_apiKey opts,
       apiEndpoint = opt_apiEndpoint opts,
       debug = default_or False (opt_debug opts),
       bufferSize = default_or (Num 20) (opt_bufferSize opts),
       flushInterval = default_or (Num 5000) (opt_flushInterval opts),
       onFlush = opt_onFlush opts,
       consentCheck = default_or
         (\<lambda>h. Inr (localStorage h ''trackingConsent'' = Some ''true''))
         (opt_consentCheck opts) \<rparr>"

definition getEndpoint :: "config \<Rightarrow> string option" where
  "getEndpoint c =
     (if mode c = ''console'' then None
      else if mode c = ''self-hosted'' \<and> truthy (apiEndpoint c) then apiEndpoint c
      else if mode c = ''hosted'' \<and> truthy (apiKey c)
        then Some (''https://api.chyavan.io/track?key='' @ or_empty (apiKey c))
      else if truthy (apiEndpoint c) then apiEndpoint c
      else None)"

definition generateSessionId :: "host \<Rightarrow> string" where
  "generateSessionId h = ''session_'' @ random_part h @ ''_'' @ dec (clock h)"

text \<open>\<^verbatim>\<open>this.log\<close> prints in debug mode, \<^verbatim>\<open>this.logConsole\<close> in console mode.\<close>

definition log_out :: "config \<Rightarrow> string \<Rightarrow> effect list" where
  "log_out c msg = (if debug c then [ConsoleLog msg] else [])"

definition logConsole :: "config \<Rightarrow> string \<Rightarrow> effect list" where
  "logConsole c msg = (if mode c = ''console'' then [ConsoleLog msg] else [])"


section \<open>Lifecycle\<close>

text \<open>
  \<^verbatim>\<open>setupKeystrokeTracking\<close> registers an \<^verbatim>\<open>input\<close> listener on every non-sensitive input
  element and then observes \<^verbatim>\<open>document.body\<close>; \<^verbatim>\<open>observe\<close> throws a \<^verbatim>\<open>TypeError\<close> when the
  body does not exist yet. A method that can throw returns the state it has reached and
  the exception, if any. The console output of the lifecycle methods is left out.
\<close>

definition setupKeystrokeTracking :: "host \<Rightarrow> chyavan \<Rightarrow> chyavan \<times> error option" where
  "setupKeystrokeTracking h s =
     (let s1 = s\<lparr>listeners := listeners s @
                 map InputListener (filter (\<lambda>el. \<not> isSensitiveField (Some el)) (inputs h))\<rparr>
      in if hasBody h then (s1\<lparr>observers := observers s1 @ [BodyObserver]\<rparr>, None)
         else (s1, Some TypeError))"

definition setupMouseTracking :: "chyavan \<Rightarrow> chyavan" where
  "setupMouseTracking s = s\<lparr>listeners := listeners s @ [ClickListener]\<rparr>"

definition setupScrollTracking :: "chyavan \<Rightarrow> chyavan" where
  "setupScrollTracking s = s\<lparr>listeners := listeners s @ [ScrollListener]\<rparr>"

definition setupEventListeners :: "host \<Rightarrow> chyavan \<Rightarrow> chyavan \<times> error option" where
  "setupEventListeners h s = (case setupKeystrokeTracking h s of
       (s1, Some e) \<Rightarrow> (s1, Some e)
     | (s1, None) \<Rightarrow> (setupScrollTracking (setupMouseTracking s1), None))"

definition startFlushTimer :: "chyavan \<Rightarrow> chyavan" where
  "startFlushTimer s = s\<lparr>flushTimer := Some (flushInterval (config s))\<rparr>"

definition enable :: "host \<Rightarrow> chyavan \<Rightarrow> chyavan \<times> error option" where
  "enable h s =
     (if isTrackingEnabled s then (s, None)
      else case setupEventListeners h (s\<lparr>isTrackingEnabled := True\<rparr>) of
          (s1, Some e) \<Rightarrow> (s1, Some e)
        | (s1, None) \<Rightarrow>
            (if mode (config s1) \<noteq> ''console'' then (startFlushTimer s1, None)
             else (s1, None)))"

text \<open>
  \<^verbatim>\<open>init\<close>: the whole body is inside \<^verbatim>\<open>try { ... } catch (error) { this.log(...) }\<close>, so an
  exception of \<open>consentCheck\<close> or of \<open>enable\<close> ends the body and is not passed on.
\<close>

definition init :: "host \<Rightarrow> chyavan \<Rightarrow> chyavan" where
  "init h s =
     (if mode (config s) = ''console'' then fst (enable h s)
      else case consentCheck (config s) h of
          Inl e \<Rightarrow> s
        | Inr consent \<Rightarrow> (if consent then fst (enable h s) else s))"

text \<open>
  The constructor. Nothing in it is outside a \<^verbatim>\<open>try\<close> block except the merge of the
  options, \<open>getEndpoint\<close> and \<open>generateSessionId\<close>, none of which throws: the result is always
  an instance.
\<close>

definition constructor :: "host \<Rightarrow> options \<Rightarrow> error + chyavan" where
  "constructor h opts =
     (let c = merge_options opts;
          c1 = c\<lparr>apiEndpoint := getEndpoint c\<rparr>
      in Inr (init h \<lparr> config = c1, eventBuffer = [], isTrackingEnabled = False,
                        observers = [], listeners = [], flushTimer = None,
                        sessionId = Some (generateSessionId h) \<rparr>))"

definition updateConfig :: "options \<Rightarrow> chyavan \<Rightarrow> chyavan" where
  "updateConfig newConfig s =
     (let c = config s;
          c1 = \<lparr> mode = default_or (mode c) (opt_mode newConfig),
                 apiKey = (case opt_apiKey newConfig of None \<Rightarrow> apiKey c | Some k \<Rightarrow> Some k),
                 apiEndpoint = (case opt_apiEndpoint newConfig of
                                  None \<Rightarrow> apiEndpoint c | Some u \<Rightarrow> Some u),
                 debug = default_or (debug c) (opt_debug newConfig),
                 bufferSize = default_or (bufferSize c) (opt_bufferSize newConfig),
                 flushInterval = default_or (flushInterval c) (opt_flushInterval newConfig),
                 onFlush = (case opt_onFlush newConfig of None \<Rightarrow> onFlush c | Some f \<Rightarrow> Some f),
                 consentCheck = default_or (consentCheck c) (opt_consentCheck newConfig) \<rparr>
      in s\<lparr>config := c1\<lparr>apiEndpoint := getEndpoint c1\<rparr>\<rparr>)"


section \<open>Delivery\<close>

text \<open>
  \<^verbatim>\<open>flush\<close> is an \<^verbatim>\<open>async\<close> method with one suspension point, \<^verbatim>\<open>await this.sendEvents(events)\<close>.
  \<open>flush_start\<close> is the part that runs inside the call of \<^verbatim>\<open>flush()\<close>; it ends either with
  the method finished or with the method suspended, holding the drained batch and the
  endpoint of the request in flight (\<open>None\<close> when \<^verbatim>\<open>sendEvents\<close> returned without a request).
\<close>

datatype flush_task = Finished | Awaiting "event list" "string option"

text \<open>What the request comes to: a rejected \<^verbatim>\<open>fetch\<close>, or a response with its status and
  whether \<^verbatim>\<open>response.json()\<close> succeeds.\<close>

datatype send_outcome = FetchRejected | Response nat bool

definition response_ok :: "nat \<Rightarrow> bool" where
  "response_ok status = (200 \<le> status \<and> status \<le> 299)"

text \<open>The synchronous part of \<^verbatim>\<open>sendEvents\<close>: no request without an endpoint.\<close>

definition sendEvents_start :: "config \<Rightarrow> event list \<Rightarrow> effect list \<times> string option" where
  "sendEvents_start c events =
     (if \<not> truthy (apiEndpoint c)
      then (log_out c ''No API endpoint configured, events not sent'', None)
      else ([FetchPost (or_empty (apiEndpoint c)) events], apiEndpoint c))"

text \<open>The promise of \<^verbatim>\<open>sendEvents\<close>: resolved, or rejected with an error.\<close>

definition sendEvents_result :: "string option \<Rightarrow> send_outcome \<Rightarrow> error + unit" where
  "sendEvents_result endpoint outcome = (case endpoint of
       None \<Rightarrow> Inr ()
     | Some u \<Rightarrow> (case outcome of
           FetchRejected \<Rightarrow> Inl NetworkError
         | Response status json_ok \<Rightarrow>
             (if \<not> response_ok status then Inl (HttpError status)
              else if json_ok then Inr () else Inl JsonError)))"

text \<open>The handler \<^verbatim>\<open>catch (error) { this.log(...); this.eventBuffer.unshift(...events); }\<close>.\<close>

definition flush_catch :: "event list \<Rightarrow> chyavan \<Rightarrow> chyavan \<times> effect list" where
  "flush_catch events s =
     (s\<lparr>eventBuffer := events @ eventBuffer s\<rparr>, log_out (config s) ''Error flushing events:'')"

definition flush_start :: "chyavan \<Rightarrow> chyavan \<times> effect list \<times> flush_task" where
  "flush_start s =
     (if eventBuffer s = [] then (s, [], Finished)
      else
        let events = eventBuffer s;
            s1 = s\<lparr>eventBuffer := []\<rparr>
        in if mode (config s1) = ''console''
           then (s1, logConsole (config s1)
                       (''Buffer contains '' @ dec (length events) @ '' events'')
                     @ [ConsoleTable events], Finished)
           else
             (case (case onFlush (config s1) of None \<Rightarrow> Inr () | Some hook \<Rightarrow> hook events) of
                Inl e \<Rightarrow>
                  (case flush_catch events s1 of
                     (s2, out) \<Rightarrow> (s2, HookCall events # out, Finished))
              | Inr _ \<Rightarrow>
                  (case sendEvents_start (config s1) events of
                     (out, endpoint) \<Rightarrow>
                       (s1, (case onFlush (config s1) of None \<Rightarrow> [] | Some hook \<Rightarrow> [HookCall events])
                            @ out, Awaiting events endpoint))))"

text \<open>
  \<open>flush_resume\<close> is the rest of \<^verbatim>\<open>flush\<close>, run when the awaited promise settles, on the
  instance as it is then.
\<close>

definition flush_resume :: "send_outcome \<Rightarrow> flush_task \<Rightarrow> chyavan \<Rightarrow> chyavan \<times> effect list" where
  "flush_resume outcome task s = (case task of
       Finished \<Rightarrow> (s, [])
     | Awaiting events endpoint \<Rightarrow>
         (case sendEvents_result endpoint outcome of
            Inr _ \<Rightarrow> (s, log_out (config s) (''Flushed '' @ dec (length events) @ '' events''))
          | Inl e \<Rightarrow> flush_catch events s))"


section \<open>Capture\<close>

definition make_event :: "host \<Rightarrow> chyavan \<Rightarrow> string \<Rightarrow> (string \<times> jsval) list \<Rightarrow> event" where
  "make_event h s type data =
     \<lparr> ev_type = type, ev_timestamp = clock h, ev_data = data, ev_sessionId = sessionId s,
       ev_url = location_href h, ev_userAgent = navigator_userAgent h \<rparr>"

text \<open>
  \<^verbatim>\<open>track(type, data)\<close>. The call \<^verbatim>\<open>this.flush()\<close> is not awaited: \<open>track\<close> returns when the
  synchronous part of \<open>flush\<close> has run. The third component lists the invocations of \<open>flush\<close>
  that the call has made, each as the task it has left behind.
\<close>

definition track ::
  "host \<Rightarrow> string \<Rightarrow> (string \<times> jsval) list \<Rightarrow> chyavan \<Rightarrow> chyavan \<times> effect list \<times> flush_task list"
where
  "track h type data s =
     (if \<not> isTrackingEnabled s then (s, [], [])
      else
        let event = make_event h s type data;
            s1 = s\<lparr>eventBuffer := eventBuffer s @ [event]\<rparr>;
            out = (if mode (config s1) = ''console'' then [ConsoleGroup event] else [])
                  @ log_out (config s1) ''Event tracked:''
        in if js_ge (length (eventBuffer s1)) (bufferSize (config s1))
           then (case flush_start s1 of (s2, out2, task) \<Rightarrow> (s2, out @ out2, [task]))
           else (s1, out, []))"

text \<open>The window metrics that the scroll handler reads; each is a finite double.\<close>

record viewport =
  pageYOffset :: rat
  pageXOffset :: rat
  scrollTop :: rat
  scrollLeft :: rat
  scrollHeight :: rat
  innerHeight :: rat

text \<open>
  \<^verbatim>\<open>
    const scrollTop = window.pageYOffset || document.documentElement.scrollTop;
    const maxScrollTop = document.documentElement.scrollHeight - window.innerHeight;
    const scrollPercentage = Math.round((scrollTop / maxScrollTop) * 100);
  \<close>
\<close>

definition scrollPercentage :: "viewport \<Rightarrow> jsnum" where
  "scrollPercentage v =
     (let scrollTop = js_or (pageYOffset v) (scrollTop v);
          maxScrollTop = js_sub (Num (scrollHeight v)) (Num (innerHeight v))
      in Math_round (js_mul (js_div (Num scrollTop) maxScrollTop) (Num 100)))"

text \<open>The function that \<^verbatim>\<open>setupScrollTracking\<close> wraps in \<open>debounce\<close>.\<close>

definition scrollHandler ::
  "host \<Rightarrow> viewport \<Rightarrow> chyavan \<Rightarrow> chyavan \<times> effect list \<times> flush_task list"
where
  "scrollHandler h v s =
     track h ''scroll''
       [(''x'', JNum (Num (js_or (pageXOffset v) (scrollLeft v)))),
        (''y'', JNum (Num (js_or (pageYOffset v) (scrollTop v)))),
        (''percentage'', JNum (scrollPercentage v))] s"


section \<open>Debounce\<close>

text \<open>
  \<^verbatim>\<open>
    debounce(fn, delay) {
      let timeout;
      return function (...args) {
        clearTimeout(timeout);
        timeout = setTimeout(() => fn.apply(this, args), delay);
      };
    }
  \<close>
  The state of one debounced function is the variable \<open>timeout\<close> of its closure together
  with the timers it has armed in the host: the next timer id, and for every armed timer
  its id, the time at which it is due and the arguments its callback will pass to \<open>fn\<close>.
  Times are in milliseconds.
\<close>

record 'a debounce_state =
  timeout :: "nat option"
  next_id :: nat
  armed :: "(nat \<times> nat \<times> 'a) list"

text \<open>\<^verbatim>\<open>clearTimeout(id)\<close> removes the timer with that id; it does nothing for \<^verbatim>\<open>undefined\<close>
  and for the id of a timer that has fired.\<close>

definition clearTimeout :: "nat option \<Rightarrow> 'a debounce_state \<Rightarrow> 'a debounce_state" where
  "clearTimeout t st = (case t of
       None \<Rightarrow> st
     | Some i \<Rightarrow> st\<lparr>armed := filter (\<lambda>x. fst x \<noteq> i) (armed st)\<rparr>)"

text \<open>\<^verbatim>\<open>setTimeout(callback, delay)\<close> at time \<open>now\<close> arms a timer under a new id and returns
  the id.\<close>

definition setTimeout :: "nat \<Rightarrow> 'a \<Rightarrow> nat \<Rightarrow> 'a debounce_state \<Rightarrow> nat \<times> 'a debounce_state" where
  "setTimeout now args delay st =
     (next_id st, st\<lparr>next_id := Suc (next_id st),
                      armed := armed st @ [(next_id st, now + delay, args)]\<rparr>)"

text \<open>A call, at time \<open>now\<close>, of the function that \<^verbatim>\<open>debounce(fn, delay)\<close> has returned.\<close>

definition debounce :: "nat \<Rightarrow> nat \<Rightarrow> 'a \<Rightarrow> 'a debounce_state \<Rightarrow> 'a debounce_state" where
  "debounce delay now args st =
     (case setTimeout now args delay (clearTimeout (timeout st) st) of
        (i, st1) \<Rightarrow> st1\<lparr>timeout := Some i\<rparr>)"

text \<open>
  The event loop at time \<open>now\<close>: the timers that are due fire in the order of their due
  times; a timer that fires calls \<open>fn\<close>, recorded as the pair of the due time and the
  arguments, and is no longer armed.
\<close>

definition run_timers :: "nat \<Rightarrow> 'a debounce_state \<Rightarrow> (nat \<times> 'a) list \<times> 'a debounce_state" where
  "run_timers now st =
     (map snd (sort_key (\<lambda>x. fst (snd x)) (filter (\<lambda>x. fst (snd x) \<le> now) (armed st))),
      st\<lparr>armed := filter (\<lambda>x. \<not> fst (snd x) \<le> now) (armed st)\<rparr>)"

text \<open>
  A run of the page: the calls of the debounced function, each with its time and its
  arguments, in the order in which they happen; before a call the timers due by then
  fire, and after the last call the timers that are left fire. The result is the list of
  the calls of \<open>fn\<close>.
\<close>

fun simulate :: "nat \<Rightarrow> (nat \<times> 'a) list \<Rightarrow> 'a debounce_state \<Rightarrow> (nat \<times> 'a) list" where
  "simulate delay [] st = map snd (sort_key (\<lambda>x. fst (snd x)) (armed st))"
| "simulate delay ((t, args) # calls) st =
     (case run_timers t st of
        (fired, st1) \<Rightarrow> fired @ simulate delay calls (debounce delay t args st1))"

text \<open>The state after \<^verbatim>\<open>debounce(fn, delay)\<close> has returned: \<open>timeout\<close> is \<^verbatim>\<open>undefined\<close>.\<close>

definition fresh :: "nat \<Rightarrow> 'a debounce_state" where
  "fresh n = \<lparr>timeout = None, next_id = n, armed = []\<rparr>"

text \<open>Every armed timer is the one whose id the closure holds.\<close>

definition owns :: "'a debounce_state \<Rightarrow> bool" where
  "owns st = (\<forall>x \<in> set (armed st). timeout st = Some (fst x))"

text \<open>
  The specification's view of a sequence of calls. A call is final when no call follows
  it within \<open>delay\<close> milliseconds; a burst is a sequence of calls in which each call follows
  the one before it within less than \<open>delay\<close> milliseconds.
\<close>

fun final_calls :: "nat \<Rightarrow> (nat \<times> 'a) list \<Rightarrow> (nat \<times> 'a) list" where
  "final_calls delay [] = []"
| "final_calls delay [c] = [c]"
| "final_calls delay (c # c' # cs) =
     (if fst c + delay \<le> fst c' then c # final_calls delay (c' # cs)
      else final_calls delay (c' # cs))"

fun burst :: "nat \<Rightarrow> (nat \<times> 'a) list \<Rightarrow> bool" where
  "burst delay [] = True"
| "burst delay [c] = True"
| "burst delay (c # c' # cs) =
     (fst c \<le> fst c' \<and> fst c' < fst c + delay \<and> burst delay (c' # cs))"


section \<open>Auxiliary notions and sample data\<close>

text \<open>A request has failed when \<^verbatim>\<open>fetch\<close> rejects or the status is not a success status.\<close>

definition failed :: "send_outcome \<Rightarrow> bool" where
  "failed outcome =
     (case outcome of FetchRejected \<Rightarrow> True | Response status json_ok \<Rightarrow> \<not> response_ok status)"

text \<open>What the pre-send hook does with a batch; no hook counts as a hook that returns.\<close>

definition hook_result :: "config \<Rightarrow> event list \<Rightarrow> error + unit" where
  "hook_result c events = (case onFlush c of None \<Rightarrow> Inr () | Some hook \<Rightarrow> hook events)"

text \<open>A sequence of calls of \<open>track\<close>, with the invocations of \<open>flush\<close> they have made.\<close>

fun track_all ::
  "host \<Rightarrow> (string \<times> (string \<times> jsval) list) list \<Rightarrow> chyavan \<Rightarrow> chyavan \<times> flush_task list"
where
  "track_all h [] s = (s, [])"
| "track_all h ((type, data) # calls) s =
     (case track h type data s of
        (s1, out, tasks) \<Rightarrow>
          (case track_all h calls s1 of (s2, tasks2) \<Rightarrow> (s2, tasks @ tasks2)))"

text \<open>Sample data: a page, constructor options, events and trackers.\<close>

definition page0 :: host where
  "page0 = \<lparr> localStorage = (\<lambda>k. if k = ''trackingConsent'' then Some ''true'' else None),
              inputs = [], hasBody = True, clock = 1700000000000,
              random_part = ''k3j9x0a1b'', location_href = ''https://example.org/'',
              navigator_userAgent = ''Mozilla/5.0'' \<rparr>"

definition no_options :: options where
  "no_options = \<lparr> opt_mode = None, opt_apiKey = None, opt_apiEndpoint = None,
                  opt_debug = None, opt_bufferSize = None, opt_flushInterval = None,
                  opt_onFlush = None, opt_consentCheck = None \<rparr>"

definition sample_event :: "string \<Rightarrow> event" where
  "sample_event name =
     \<lparr> ev_type = name, ev_timestamp = 1700000000000, ev_data = [],
       ev_sessionId = Some ''session_k3j9x0a1b_1700000000000'',
       ev_url = ''https://example.org/'', ev_userAgent = ''Mozilla/5.0'' \<rparr>"

text \<open>An enabled tracker in the given mode with \<open>bufferSize\<close> 3, endpoint \<open>/track\<close>, no hook.\<close>

definition sample_tracker :: "string \<Rightarrow> event list \<Rightarrow> chyavan" where
  "sample_tracker m buffer =
     \<lparr> config = \<lparr> mode = m, apiKey = None,
                   apiEndpoint = (if m = ''console'' then None else Some ''/track''),
                   debug = False, bufferSize = Num 3, flushInterval = Num 5000,
                   onFlush = None, consentCheck = (\<lambda>h. Inr True) \<rparr>,
       eventBuffer = buffer, isTrackingEnabled = True,
       observers = [BodyObserver], listeners = [ClickListener, ScrollListener],
       flushTimer = (if m = ''console'' then None else Some (Num 5000)),
       sessionId = Some ''session_k3j9x0a1b_1700000000000'' \<rparr>"


text \<open>
  A run with two flushes in flight: on an empty tracker with \<open>bufferSize\<close> 3 the events
  \<open>A\<close>, \<open>B\<close>, \<open>C\<close> are tracked, which starts a flush, and then \<open>D\<close>, \<open>E\<close>, \<open>F\<close>, which starts a
  second one before the request of the first has settled.
\<close>

definition first_three :: "chyavan \<times> flush_task list" where
  "first_three =
     track_all page0 [(''A'', []), (''B'', []), (''C'', [])] (sample_tracker ''self-hosted'' [])"

definition next_three :: "chyavan \<times> flush_task list" where
  "next_three = track_all page0 [(''D'', []), (''E'', []), (''F'', [])] (fst first_three)"


section \<open>Facts about strings\<close>

lemma dec_small: "n < 10 \<Longrightarrow> dec n = [digit_char n]"
  by (subst dec.simps) simp

lemma dec_large: "\<not> n < 10 \<Longrightarrow> dec n = dec (n div 10) @ [digit_char (n mod 10)]"
  by (subst dec.simps) simp

lemma dec_nonempty: "dec n \<noteq> []"
  by (cases "n < 10") (simp_all add: dec_small dec_large)

lemma length_dec_bound: "length (dec n) \<le> 1 + n div 10"
proof (induction n rule: dec.induct)
  case (1 n)
  show ?case
  proof (cases "n < 10")
    case True
    then show ?thesis by (simp add: dec_small)
  next
    case False
    with 1 have "length (dec (n div 10)) \<le> 1 + n div 10 div 10" by simp
    moreover from False have "0 < n div 10" by simp
    then have "n div 10 div 10 < n div 10" by (rule div_less_dividend [rotated]) simp
    then have "1 + n div 10 div 10 \<le> n div 10" by simp
    ultimately show ?thesis using False by (simp add: dec_large)
  qed
qed

lemma digit_char_inj: "a < 10 \<Longrightarrow> b < 10 \<Longrightarrow> digit_char a = digit_char b \<Longrightarrow> a = b"
proof -
  assume a: "a < 10" and b: "b < 10" and e: "digit_char a = digit_char b"
  from e have "(of_char (digit_char a) :: nat) = of_char (digit_char b)" by simp
  with a b show "a = b" by (simp add: digit_char_def)
qed

lemma is_digit_digit_char: "a < 10 \<Longrightarrow> is_digit (digit_char a)"
  by (simp add: is_digit_def digit_char_def)

lemma dec_digits: "list_all is_digit (dec n)"
proof (induction n rule: dec.induct)
  case (1 n)
  show ?case
  proof (cases "n < 10")
    case True
    then show ?thesis by (simp add: dec_small is_digit_digit_char)
  next
    case False
    with 1 show ?thesis by (simp add: dec_large is_digit_digit_char)
  qed
qed

lemma dec_inj: "dec n = dec m \<Longrightarrow> n = m"
proof (induction n arbitrary: m rule: dec.induct)
  case (1 n)
  show ?case
  proof (cases "n < 10")
    case n: True
    show ?thesis
    proof (cases "m < 10")
      case True
      with n 1(2) show ?thesis
        by (simp add: dec_small digit_char_inj)
    next
      case False
      have "dec (m div 10) \<noteq> []" by (rule dec_nonempty)
      with n False 1(2) show ?thesis
        by (simp add: dec_small dec_large)
    qed
  next
    case n: False
    show ?thesis
    proof (cases "m < 10")
      case True
      have "dec (n div 10) \<noteq> []" by (rule dec_nonempty)
      with n True 1(2) show ?thesis
        by (simp add: dec_small dec_large)
    next
      case False
      from n False 1(2) have e: "dec (n div 10) = dec (m div 10)"
        and d: "digit_char (n mod 10) = digit_char (m mod 10)"
        by (simp_all add: dec_large)
      from 1(1) [OF n e] have "n div 10 = m div 10" .
      moreover from d have "n mod 10 = m mod 10" by (simp add: digit_char_inj)
      ultimately show ?thesis by (metis div_mult_mod_eq)
    qed
  qed
qed

lemma startsWith_iff: "startsWith s w \<longleftrightarrow> (\<exists>q. s = w @ q)"
  by (induction s w rule: startsWith.induct) auto

lemma includes_str_iff: "includes_str s w \<longleftrightarrow> (\<exists>p q. s = p @ w @ q)"
proof (induction s)
  case Nil
  then show ?case by auto
next
  case (Cons c cs)
  show ?case
  proof
    assume "includes_str (c # cs) w"
    then consider "startsWith (c # cs) w" | "includes_str cs w" by auto
    then show "\<exists>p q. c # cs = p @ w @ q"
    proof cases
      case 1
      then obtain q where "c # cs = w @ q" by (auto simp: startsWith_iff)
      then have "c # cs = [] @ w @ q" by simp
      then show ?thesis by blast
    next
      case 2
      with Cons obtain p q where "cs = p @ w @ q" by auto
      then have "c # cs = (c # p) @ w @ q" by simp
      then show ?thesis by blast
    qed
  next
    assume "\<exists>p q. c # cs = p @ w @ q"
    then obtain p q where e: "c # cs = p @ w @ q" by blast
    show "includes_str (c # cs) w"
    proof (cases p)
      case Nil
      with e have "startsWith (c # cs) w" by (auto simp: startsWith_iff)
      then show ?thesis by simp
    next
      case (Cons a p')
      with e have "cs = p' @ w @ q" by simp
      with Cons.IH have "includes_str cs w" by blast
      then show ?thesis by simp
    qed
  qed
qed

lemma includes_lower_iff:
  "toLowerCase w = w \<Longrightarrow> includes_str (toLowerCase s) w \<longleftrightarrow> contains_ignoring_case s w"
  unfolding includes_str_iff contains_ignoring_case_def same_ignoring_case_def toLowerCase_def
  by (auto simp: map_eq_append_conv append_eq_map_conv) metis+

lemma startsWith_lower_iff:
  "toLowerCase w = w \<Longrightarrow> startsWith (toLowerCase s) w \<longleftrightarrow> starts_ignoring_case s w"
  unfolding startsWith_iff starts_ignoring_case_def same_ignoring_case_def toLowerCase_def
  by (auto simp: map_eq_append_conv append_eq_map_conv)

lemma lower_words:
  "toLowerCase ''card'' = ''card''" "toLowerCase ''cvv'' = ''cvv''"
  "toLowerCase ''password'' = ''password''" "toLowerCase ''ssn'' = ''ssn''"
  "toLowerCase ''secret'' = ''secret''" "toLowerCase ''token'' = ''token''"
  "toLowerCase ''cc-'' = ''cc-''" "toLowerCase ''hidden'' = ''hidden''"
  by (simp_all add: toLowerCase_def toLowerChar_def)


section \<open>Facts about redaction\<close>

lemma length_dec_two: "10 \<le> n \<Longrightarrow> n < 100 \<Longrightarrow> length (dec n) = 2"
  by (simp add: dec_small dec_large)

lemma length_dec_fix13: "length (dec n) + 13 = n \<longleftrightarrow> n = 15"
proof
  assume e: "length (dec n) + 13 = n"
  have "length (dec n) \<le> 1 + n div 10" by (rule length_dec_bound)
  with e have "n \<le> 14 + n div 10" by linarith
  then have u: "n \<le> 15" by linarith
  from e have l: "13 \<le> n" by linarith
  with u have "length (dec n) = 2" by (intro length_dec_two) simp_all
  with e show "n = 15" by simp
next
  assume "n = 15"
  then show "length (dec n) + 13 = n" by (simp add: length_dec_two)
qed

lemma length_dec_fix19: "length (dec n) + 19 = n \<longleftrightarrow> n = 21"
proof
  assume e: "length (dec n) + 19 = n"
  have "length (dec n) \<le> 1 + n div 10" by (rule length_dec_bound)
  with e have "n \<le> 20 + n div 10" by linarith
  then have u: "n \<le> 22" by linarith
  from e have l: "19 \<le> n" by linarith
  with u have "length (dec n) = 2" by (intro length_dec_two) simp_all
  with e show "n = 21" by simp
next
  assume "n = 21"
  then show "length (dec n) + 19 = n" by (simp add: length_dec_two)
qed

lemma not_digit_bracket: "\<not> is_digit CHR ''[''" "\<not> is_digit CHR ''T''"
  by (simp_all add: is_digit_def)

lemma tag_differs: "a @ '' digits]'' \<noteq> b @ '' characters]''"
proof
  assume "a @ '' digits]'' = b @ '' characters]''"
  then have "rev (a @ '' digits]'') = rev (b @ '' characters]'')" by (rule arg_cong)
  then show False by simp
qed

lemma tag_differs_script: "a @ ''] digits'' \<noteq> b @ ''] characters''"
proof
  assume "a @ ''] digits'' = b @ ''] characters''"
  then have "rev (a @ ''] digits'') = rev (b @ ''] characters'')" by (rule arg_cong)
  then show False by simp
qed

lemma sanitizeText_of_digits:
  "s \<noteq> [] \<Longrightarrow> list_all is_digit s \<Longrightarrow> sanitizeText s = ''['' @ dec (length s) @ '' digits]''"
  by (simp add: sanitizeText_def onlyDigits_test_def)

lemma sanitizeText_of_other:
  "\<not> list_all is_digit s \<Longrightarrow> sanitizeText s = ''['' @ dec (length s) @ '' characters]''"
  by (auto simp add: sanitizeText_def onlyDigits_test_def)

lemma sanitizeText_not_digits: "s \<noteq> [] \<Longrightarrow> \<not> list_all is_digit (sanitizeText s)"
  by (simp add: sanitizeText_def not_digit_bracket)

lemma length_sanitizeText_digits:
  "s \<noteq> [] \<Longrightarrow> list_all is_digit s \<Longrightarrow> length (sanitizeText s) = length (dec (length s)) + 9"
  by (simp add: sanitizeText_of_digits)

lemma length_sanitizeText_other:
  "\<not> list_all is_digit s \<Longrightarrow> length (sanitizeText s) = length (dec (length s)) + 13"
  by (simp add: sanitizeText_of_other)

lemma sanitizeText_twice:
  "sanitizeText (sanitizeText s) = sanitizeText s
     \<longleftrightarrow> s = [] \<or> (\<not> list_all is_digit s \<and> length s = 15)"
proof (cases "s = []")
  case True
  then show ?thesis by (simp add: sanitizeText_def)
next
  case ne: False
  then have again: "sanitizeText (sanitizeText s)
      = ''['' @ dec (length (sanitizeText s)) @ '' characters]''"
    by (intro sanitizeText_of_other sanitizeText_not_digits)
  show ?thesis
  proof (cases "list_all is_digit s")
    case True
    with ne have "sanitizeText (sanitizeText s) \<noteq> sanitizeText s"
      using tag_differs [of "dec (length s)" "dec (length (sanitizeText s))"]
      by (simp add: again) (simp add: sanitizeText_of_digits)
    with ne True show ?thesis by simp
  next
    case False
    have "sanitizeText (sanitizeText s) = sanitizeText s
            \<longleftrightarrow> dec (length (sanitizeText s)) = dec (length s)"
      using False by (simp add: again) (simp add: sanitizeText_of_other)
    also have "\<dots> \<longleftrightarrow> length (dec (length s)) + 13 = length s"
      using False by (auto dest: dec_inj simp add: length_sanitizeText_other)
    also have "\<dots> \<longleftrightarrow> length s = 15" by (rule length_dec_fix13)
    finally show ?thesis using ne False by simp
  qed
qed

lemma sanitizeText_script_of_other:
  "\<not> list_all is_digit s \<Longrightarrow>
     sanitizeText_script s = ''Typed ['' @ dec (length s) @ ''] characters''"
  by (auto simp add: sanitizeText_script_def onlyDigits_test_def)

lemma sanitizeText_script_of_digits:
  "s \<noteq> [] \<Longrightarrow> list_all is_digit s \<Longrightarrow>
     sanitizeText_script s = ''Typed ['' @ dec (length s) @ ''] digits''"
  by (simp add: sanitizeText_script_def onlyDigits_test_def)

lemma sanitizeText_script_not_digits:
  "s \<noteq> [] \<Longrightarrow> \<not> list_all is_digit (sanitizeText_script s)"
  by (simp add: sanitizeText_script_def not_digit_bracket)

lemma length_sanitizeText_script_other:
  "\<not> list_all is_digit s \<Longrightarrow>
     length (sanitizeText_script s) = length (dec (length s)) + 19"
  by (simp add: sanitizeText_script_of_other)

lemma sanitizeText_script_twice:
  "sanitizeText_script (sanitizeText_script s) = sanitizeText_script s
     \<longleftrightarrow> s = [] \<or> (\<not> list_all is_digit s \<and> length s = 21)"
proof (cases "s = []")
  case True
  then show ?thesis by (simp add: sanitizeText_script_def)
next
  case ne: False
  then have again: "sanitizeText_script (sanitizeText_script s)
      = ''Typed ['' @ dec (length (sanitizeText_script s)) @ ''] characters''"
    by (intro sanitizeText_script_of_other sanitizeText_script_not_digits)
  show ?thesis
  proof (cases "list_all is_digit s")
    case True
    with ne have "sanitizeText_script (sanitizeText_script s) \<noteq> sanitizeText_script s"
      using tag_differs_script [of "dec (length s)" "dec (length (sanitizeText_script s))"]
      by (simp add: again) (simp add: sanitizeText_script_of_digits)
    with ne True show ?thesis by simp
  next
    case False
    have "sanitizeText_script (sanitizeText_script s) = sanitizeText_script s
            \<longleftrightarrow> dec (length (sanitizeText_script s)) = dec (length s)"
      using False by (simp add: again) (simp add: sanitizeText_script_of_other)
    also have "\<dots> \<longleftrightarrow> length (dec (length s)) + 19 = length s"
      using False by (auto dest: dec_inj simp add: length_sanitizeText_script_other)
    also have "\<dots> \<longleftrightarrow> length s = 21" by (rule length_dec_fix19)
    finally show ?thesis using ne False by simp
  qed
qed

lemma startsWith_length: "startsWith s w \<Longrightarrow> length w \<le> length s"
  by (induction s w rule: startsWith.induct) simp_all

lemma includes_str_length: "includes_str s w \<Longrightarrow> length w \<le> length s"
  by (induction s) (auto dest: startsWith_length)

lemma long_input_not_in_descriptor:
  assumes "15 < length s"
  shows "\<not> includes_str (sanitizeText s) s"
proof
  assume "includes_str (sanitizeText s) s"
  then have l: "length s \<le> length (sanitizeText s)" by (rule includes_str_length)
  have "length (sanitizeText s) \<le> length (dec (length s)) + 13"
    by (simp add: sanitizeText_def)
  moreover have "length (dec (length s)) \<le> 1 + length s div 10" by (rule length_dec_bound)
  ultimately show False using l assms by linarith
qed

lemma long_input_not_in_descriptor_script:
  assumes "21 < length s"
  shows "\<not> includes_str (sanitizeText_script s) s"
proof
  assume "includes_str (sanitizeText_script s) s"
  then have l: "length s \<le> length (sanitizeText_script s)" by (rule includes_str_length)
  have "length (sanitizeText_script s) \<le> length (dec (length s)) + 19"
    by (simp add: sanitizeText_script_def)
  moreover have "length (dec (length s)) + 19 < length s"
  proof (cases "length s < 100")
    case True
    with assms have "length (dec (length s)) = 2" by (intro length_dec_two) simp_all
    with assms show ?thesis by simp
  next
    case False
    have "length (dec (length s)) \<le> 1 + length s div 10" by (rule length_dec_bound)
    with False show ?thesis by linarith
  qed
  ultimately show False using l by linarith
qed


section \<open>Properties of redaction\<close>

text \<open>
  Claim C9. The descriptor is a function of the length of the input and of whether the input
  consists of decimal digits only: two non-empty inputs of the same length that are both
  all-digits or both not all-digits get the same descriptor, in the class method and in the
  stand-alone script.
\<close>

theorem sanitizeText_length_and_class_only:
  assumes "s \<noteq> []" and "t \<noteq> []"
    and "length s = length t"
    and "list_all is_digit s = list_all is_digit t"
  shows "sanitizeText s = sanitizeText t \<and> sanitizeText_script s = sanitizeText_script t"
  using assms by (simp add: sanitizeText_def sanitizeText_script_def onlyDigits_test_def)

theorem sanitizeText_length_and_class_only_witness:
  "sanitizeText ''4111'' = sanitizeText ''0000''
   \<and> sanitizeText_script ''4111'' = sanitizeText_script ''0000''
   \<and> sanitizeText ''abcd'' = sanitizeText ''pq r''
   \<and> sanitizeText_script ''abcd'' = sanitizeText_script ''pq r''"
proof -
  have d: "list_all is_digit ''4111'' = list_all is_digit ''0000''"
    by (simp add: is_digit_def)
  have c: "list_all is_digit ''abcd'' = list_all is_digit ''pq r''"
    by (simp add: is_digit_def)
  from sanitizeText_length_and_class_only [of "''4111''" "''0000''"] d
  have "sanitizeText ''4111'' = sanitizeText ''0000''
        \<and> sanitizeText_script ''4111'' = sanitizeText_script ''0000''"
    by simp
  moreover from sanitizeText_length_and_class_only [of "''abcd''" "''pq r''"] c
  have "sanitizeText ''abcd'' = sanitizeText ''pq r''
        \<and> sanitizeText_script ''abcd'' = sanitizeText_script ''pq r''"
    by simp
  ultimately show ?thesis by simp
qed

text \<open>
  Claim C1, as stated, fails: the descriptor can contain substrings of the input. The
  descriptor of \<open>4111111111111111\<close> is \<open>[16 digits]\<close>, which contains the input's substring
  \<open>1\<close>; the descriptor of the 15 code units \<open>[15 characters]\<close> is that very text.
\<close>

theorem sanitizeText_contains_input_substring:
  "includes_str ''4111111111111111'' ''1''
   \<and> includes_str (sanitizeText ''4111111111111111'') ''1''
   \<and> sanitizeText ''[15 characters]'' = ''[15 characters]''
   \<and> includes_str (sanitizeText ''[15 characters]'') ''[15 characters]''"
  by code_simp

text \<open>
  Claim C1, amended. The empty input yields the empty string; a non-empty all-digit input
  yields \<open>[\<close>\<^emph>\<open>n\<close>\<open> digits]\<close> and any other input \<open>[\<close>\<^emph>\<open>n\<close>\<open> characters]\<close>, where \<^emph>\<open>n\<close> is the
  decimal length of the input and nothing else of the input is used; an input of more than
  15 code units is never contained in its descriptor. The stand-alone script does the same
  with the templates \<open>Typed [\<close>\<^emph>\<open>n\<close>\<open>] digits\<close> and \<open>Typed [\<close>\<^emph>\<open>n\<close>\<open>] characters\<close> and the
  bound 21.
\<close>

theorem sanitizeText_descriptor:
  "sanitizeText [] = [] \<and> sanitizeText_script [] = []
   \<and> (text \<noteq> [] \<and> list_all is_digit text \<longrightarrow>
        sanitizeText text = ''['' @ dec (length text) @ '' digits]''
        \<and> sanitizeText_script text = ''Typed ['' @ dec (length text) @ ''] digits'')
   \<and> (\<not> list_all is_digit text \<longrightarrow>
        sanitizeText text = ''['' @ dec (length text) @ '' characters]''
        \<and> sanitizeText_script text = ''Typed ['' @ dec (length text) @ ''] characters'')
   \<and> (15 < length text \<longrightarrow> \<not> includes_str (sanitizeText text) text)
   \<and> (21 < length text \<longrightarrow> \<not> includes_str (sanitizeText_script text) text)"
proof -
  have "sanitizeText [] = []" "sanitizeText_script [] = []"
    by (simp_all add: sanitizeText_def sanitizeText_script_def)
  then show ?thesis
    by (simp add: sanitizeText_of_digits sanitizeText_of_other
        sanitizeText_script_of_digits sanitizeText_script_of_other
        long_input_not_in_descriptor long_input_not_in_descriptor_script)
qed

theorem sanitizeText_descriptor_witness:
  "sanitizeText ''4111111111111111'' = ''[16 digits]''
   \<and> sanitizeText_script ''4111111111111111'' = ''Typed [16] digits''
   \<and> sanitizeText ''hello, world'' = ''[12 characters]''
   \<and> sanitizeText_script ''hello, world'' = ''Typed [12] characters''
   \<and> \<not> includes_str (sanitizeText ''4111111111111111'') ''4111111111111111''
   \<and> \<not> includes_str (sanitizeText_script ''twenty-five code units...'')
         ''twenty-five code units...''"
proof -
  have dg: "list_all is_digit ''4111111111111111''" by (simp add: is_digit_def)
  have nd: "\<not> list_all is_digit ''hello, world''" by (simp add: is_digit_def)
  have l16: "length ''4111111111111111'' = 16" and l12: "length ''hello, world'' = 12"
    and l25: "length ''twenty-five code units...'' = 25" by simp_all
  have d16: "dec 16 = ''16''" and d12: "dec 12 = ''12''" by code_simp+
  note digits = sanitizeText_descriptor [of "''4111111111111111''", unfolded l16 d16]
  note other = sanitizeText_descriptor [of "''hello, world''", unfolded l12 d12]
  note long = sanitizeText_descriptor [of "''twenty-five code units...''", unfolded l25]
  from digits dg
  have "sanitizeText ''4111111111111111'' = ''[16 digits]''
        \<and> sanitizeText_script ''4111111111111111'' = ''Typed [16] digits''
        \<and> \<not> includes_str (sanitizeText ''4111111111111111'') ''4111111111111111''"
    by simp
  moreover from other nd
  have "sanitizeText ''hello, world'' = ''[12 characters]''
        \<and> sanitizeText_script ''hello, world'' = ''Typed [12] characters''"
    by simp
  moreover from long
  have "\<not> includes_str (sanitizeText_script ''twenty-five code units...'')
           ''twenty-five code units...''"
    by simp
  ultimately show ?thesis by simp
qed

text \<open>
  Claim C8, as stated, fails: the descriptor of a descriptor is a new descriptor. For the
  specification's own example \<open>4111111111111111\<close> the first application gives \<open>[16 digits]\<close>
  and the second \<open>[11 characters]\<close>.
\<close>

theorem sanitizeText_not_idempotent:
  "sanitizeText ''4111111111111111'' = ''[16 digits]''
   \<and> sanitizeText (sanitizeText ''4111111111111111'') = ''[11 characters]''
   \<and> sanitizeText (sanitizeText ''4111111111111111'') \<noteq> sanitizeText ''4111111111111111''"
  by code_simp

text \<open>
  Claim C8, amended. Applying \<open>sanitizeText\<close> to its own output reproduces that output exactly
  when the input is empty or is a string of 15 code units that are not all digits (its
  descriptor \<open>[15 characters]\<close> is itself 15 code units long); for every other input the
  second application gives a different descriptor. In the stand-alone script the length is
  21.
\<close>

theorem sanitizeText_idempotent_iff:
  "(sanitizeText (sanitizeText s) = sanitizeText s
      \<longleftrightarrow> s = [] \<or> (\<not> list_all is_digit s \<and> length s = 15))
   \<and> (sanitizeText_script (sanitizeText_script s) = sanitizeText_script s
      \<longleftrightarrow> s = [] \<or> (\<not> list_all is_digit s \<and> length s = 21))"
  using sanitizeText_twice [of s] sanitizeText_script_twice [of s] by blast

theorem sanitizeText_idempotent_iff_witness:
  "sanitizeText (sanitizeText ''fifteen letters'') = sanitizeText ''fifteen letters''
   \<and> sanitizeText_script (sanitizeText_script ''twenty-one code units'')
       = sanitizeText_script ''twenty-one code units''
   \<and> sanitizeText (sanitizeText ''abc'') \<noteq> sanitizeText ''abc''"
proof -
  have a: "\<not> list_all is_digit ''fifteen letters''"
    and b: "\<not> list_all is_digit ''twenty-one code units''"
    and c: "\<not> list_all is_digit ''abc''"
    by (simp_all add: is_digit_def)
  from sanitizeText_idempotent_iff [of "''fifteen letters''"] a
  have "sanitizeText (sanitizeText ''fifteen letters'') = sanitizeText ''fifteen letters''"
    by simp
  moreover from sanitizeText_idempotent_iff [of "''twenty-one code units''"] b
  have "sanitizeText_script (sanitizeText_script ''twenty-one code units'')
       = sanitizeText_script ''twenty-one code units''"
    by simp
  moreover from sanitizeText_idempotent_iff [of "''abc''"] c
  have "sanitizeText (sanitizeText ''abc'') \<noteq> sanitizeText ''abc''"
    by simp
  ultimately show ?thesis by simp
qed


section \<open>Properties of classification\<close>

text \<open>
  Claim C3, as stated, fails: the code lower-cases the type and the autocomplete attribute
  as well, so a target whose type is \<open>PASSWORD\<close>, or whose autocomplete value is
  \<open>CC-NUMBER\<close>, is classified as sensitive although its type does not equal \<open>password\<close> or
  \<open>hidden\<close>, its name contains no word of the vocabulary and its autocomplete value does
  not start with \<open>cc-\<close>.
\<close>

theorem isSensitiveField_upper_case_type:
  "isSensitiveField (Some \<lparr>tagName = ''A'', el_type = Some ''PASSWORD'',
                            el_name = None, el_autocomplete = None\<rparr>)
   \<and> \<not> classify_stated (Some \<lparr>tagName = ''A'', el_type = Some ''PASSWORD'',
                                 el_name = None, el_autocomplete = None\<rparr>)
   \<and> isSensitiveField (Some \<lparr>tagName = ''INPUT'', el_type = Some ''text'',
                              el_name = None, el_autocomplete = Some ''CC-NUMBER''\<rparr>)
   \<and> \<not> classify_stated (Some \<lparr>tagName = ''INPUT'', el_type = Some ''text'',
                                 el_name = None, el_autocomplete = Some ''CC-NUMBER''\<rparr>)"
proof -
  have "isSensitiveField (Some \<lparr>tagName = ''A'', el_type = Some ''PASSWORD'',
                            el_name = None, el_autocomplete = None\<rparr>)"
    by code_simp
  moreover have "isSensitiveField (Some \<lparr>tagName = ''INPUT'', el_type = Some ''text'',
                              el_name = None, el_autocomplete = Some ''CC-NUMBER''\<rparr>)"
    by code_simp
  moreover have "\<not> contains_ignoring_case [] w" if "w \<in> set sensitive_words" for w
    using that
    by (auto simp: contains_ignoring_case_def same_ignoring_case_def sensitive_words_def
        toLowerCase_def)
  ultimately show ?thesis
    by (simp add: classify_stated_def or_empty_def)
qed

text \<open>
  Claim C3, amended. An absent target is not sensitive. A target is sensitive if and only
  if, ignoring case in all three attributes, its type equals \<open>password\<close> or \<open>hidden\<close>, or
  its name contains one of the six words \<open>card\<close>, \<open>cvv\<close>, \<open>password\<close>, \<open>ssn\<close>, \<open>secret\<close>,
  \<open>token\<close>, or its autocomplete value starts with \<open>cc-\<close>; an absent attribute counts as the
  empty string. (This is the class method; the stand-alone script is treated below.)
\<close>

theorem isSensitiveField_iff:
  "isSensitiveField None = False \<and>
   (isSensitiveField (Some e) \<longleftrightarrow>
      same_ignoring_case (or_empty (el_type e)) ''password'' \<or>
      same_ignoring_case (or_empty (el_type e)) ''hidden'' \<or>
      (\<exists>w \<in> set sensitive_words. contains_ignoring_case (or_empty (el_name e)) w) \<or>
      starts_ignoring_case (or_empty (el_autocomplete e)) ''cc-'')"
  by (simp add: isSensitiveField_def sensitive_words_def Let_def includes_lower_iff
      startsWith_lower_iff lower_words same_ignoring_case_def)

theorem isSensitiveField_iff_witness:
  "contains_ignoring_case ''billingCardNumber'' ''card''
   \<and> isSensitiveField (Some \<lparr>tagName = ''INPUT'', el_type = Some ''text'',
        el_name = Some ''billingCardNumber'', el_autocomplete = None\<rparr>)"
proof -
  have "''billingCardNumber'' = ''billing'' @ ''Card'' @ ''Number''" by simp
  moreover have "same_ignoring_case ''Card'' ''card''"
    by code_simp
  ultimately have c: "contains_ignoring_case ''billingCardNumber'' ''card''"
    unfolding contains_ignoring_case_def by blast
  have "''card'' \<in> set sensitive_words" by (simp add: sensitive_words_def)
  with c isSensitiveField_iff [of "\<lparr>tagName = ''INPUT'', el_type = Some ''text'',
        el_name = Some ''billingCardNumber'', el_autocomplete = None\<rparr>"]
  show ?thesis by (auto simp: or_empty_def)
qed

text \<open>
  The stand-alone script \<^verbatim>\<open>src/index.js\<close> does not test for \<open>secret\<close> and \<open>token\<close>: a field
  named \<open>token\<close> is sensitive for the class method and not for the script.
\<close>

lemma isSensitiveField_script_misses_token:
  "isSensitiveField (Some \<lparr>tagName = ''INPUT'', el_type = Some ''text'',
        el_name = Some ''token'', el_autocomplete = None\<rparr>)
   \<and> \<not> isSensitiveField_script (Some \<lparr>tagName = ''INPUT'', el_type = Some ''text'',
        el_name = Some ''token'', el_autocomplete = None\<rparr>)"
  by code_simp


section \<open>Facts about the lifecycle\<close>

lemma config_setupEventListeners [simp]: "config (fst (setupEventListeners h s)) = config s"
  by (simp add: setupEventListeners_def setupKeystrokeTracking_def setupMouseTracking_def
      setupScrollTracking_def Let_def)

lemma config_enable [simp]: "config (fst (enable h s)) = config s"
proof (cases "setupEventListeners h (s\<lparr>isTrackingEnabled := True\<rparr>)")
  case (Pair s1 e)
  then have "config s1 = config s"
    using config_setupEventListeners [of h "s\<lparr>isTrackingEnabled := True\<rparr>"] by simp
  with Pair show ?thesis
    by (cases e) (simp_all add: enable_def startFlushTimer_def)
qed

lemma config_init [simp]: "config (init h s) = config s"
  by (simp add: init_def split: sum.splits)

lemma isTrackingEnabled_setup:
  "isTrackingEnabled (fst (setupEventListeners h s)) = isTrackingEnabled s"
  by (simp add: setupEventListeners_def setupKeystrokeTracking_def setupMouseTracking_def
      setupScrollTracking_def Let_def)

lemma isTrackingEnabled_enable [simp]: "isTrackingEnabled (fst (enable h s))"
proof (cases "isTrackingEnabled s")
  case True
  then show ?thesis by (simp add: enable_def)
next
  case False
  show ?thesis
  proof (cases "setupEventListeners h (s\<lparr>isTrackingEnabled := True\<rparr>)")
    case (Pair s1 e)
    then have "isTrackingEnabled s1"
      using isTrackingEnabled_setup [of h "s\<lparr>isTrackingEnabled := True\<rparr>"] by simp
    with Pair False show ?thesis
      by (cases e) (simp_all add: enable_def startFlushTimer_def)
  qed
qed

lemma constructor_config:
  "constructor h opts = Inr inst \<Longrightarrow>
     config inst = (merge_options opts)\<lparr>apiEndpoint := getEndpoint (merge_options opts)\<rparr>"
  by (auto simp add: constructor_def Let_def)


text \<open>The sample trackers are instances that the constructor returns.\<close>

lemma dec_clock_page0: "dec 1700000000000 = ''1700000000000''"
  by (simp add: dec_small dec_large digit_char_def) code_simp

lemma generateSessionId_page0:
  "generateSessionId page0 = ''session_k3j9x0a1b_1700000000000''"
  by (simp add: generateSessionId_def page0_def dec_clock_page0)

lemma constructor_sample_tracker:
  "constructor page0
     (no_options\<lparr>opt_mode := Some ''self-hosted'', opt_apiEndpoint := Some ''/track'',
                  opt_bufferSize := Some (Num 3), opt_consentCheck := Some (\<lambda>h. Inr True)\<rparr>)
     = Inr (sample_tracker ''self-hosted'' [])"
  "constructor page0
     (no_options\<lparr>opt_bufferSize := Some (Num 3), opt_consentCheck := Some (\<lambda>h. Inr True)\<rparr>)
     = Inr (sample_tracker ''console'' [])"
  by (simp_all add: constructor_def Let_def merge_options_def no_options_def init_def
      default_or_def getEndpoint_def enable_def setupEventListeners_def
      setupKeystrokeTracking_def setupMouseTracking_def setupScrollTracking_def
      startFlushTimer_def truthy_def sample_tracker_def generateSessionId_page0)
     (simp_all add: page0_def)


section \<open>Properties of construction\<close>

text \<open>
  Claim C7, as stated, fails: the constructor validates nothing. With \<open>bufferSize\<close> 0 and
  \<open>flushInterval\<close> \<open>-5\<close> in self-hosted mode on a page that has given consent, it returns an
  enabled instance that holds both values and has armed the flush timer with the period
  \<open>-5\<close>.
\<close>

theorem constructor_accepts_invalid_capacity:
  "(case constructor page0
           (no_options\<lparr>opt_mode := Some ''self-hosted'', opt_apiEndpoint := Some ''/track'',
                        opt_bufferSize := Some (Num 0), opt_flushInterval := Some (Num (- 5))\<rparr>)
    of Inl e \<Rightarrow> False
     | Inr inst \<Rightarrow> isTrackingEnabled inst \<and> bufferSize (config inst) = Num 0
                    \<and> flushInterval (config inst) = Num (- 5)
                    \<and> flushTimer inst = Some (Num (- 5)))"
  by (simp add: constructor_def Let_def merge_options_def no_options_def init_def
      default_or_def getEndpoint_def page0_def enable_def setupEventListeners_def
      setupKeystrokeTracking_def setupMouseTracking_def setupScrollTracking_def
      startFlushTimer_def truthy_def)

text \<open>
  Claim C7, amended. Construction never raises a configuration error: for every page and
  every options object the constructor returns an instance, and the instance holds the
  given \<open>bufferSize\<close> and \<open>flushInterval\<close> unchanged, whatever numbers they are (20 and 5000
  when they are not given).
\<close>

theorem constructor_never_rejects:
  "\<exists>inst. constructor h opts = Inr inst
      \<and> bufferSize (config inst) = default_or (Num 20) (opt_bufferSize opts)
      \<and> flushInterval (config inst) = default_or (Num 5000) (opt_flushInterval opts)"
proof -
  obtain inst where i: "constructor h opts = Inr inst"
    by (simp add: constructor_def Let_def)
  then have "config inst
      = (merge_options opts)\<lparr>apiEndpoint := getEndpoint (merge_options opts)\<rparr>"
    by (rule constructor_config)
  then have "bufferSize (config inst) = default_or (Num 20) (opt_bufferSize opts)"
    and "flushInterval (config inst) = default_or (Num 5000) (opt_flushInterval opts)"
    by (simp_all add: merge_options_def)
  with i show ?thesis by blast
qed

theorem constructor_never_rejects_witness:
  "\<exists>inst. constructor page0 (no_options\<lparr>opt_bufferSize := Some NaN\<rparr>) = Inr inst
      \<and> bufferSize (config inst) = NaN \<and> flushInterval (config inst) = Num 5000"
  using constructor_never_rejects [of page0 "no_options\<lparr>opt_bufferSize := Some NaN\<rparr>"]
  by (simp add: default_or_def no_options_def)


section \<open>Facts about delivery\<close>

lemma flush_start_hook_throws:
  assumes "eventBuffer s \<noteq> []" and "mode (config s) \<noteq> ''console''"
    and "onFlush (config s) = Some hook" and "hook (eventBuffer s) = Inl e"
  shows "flush_start s
           = (s, HookCall (eventBuffer s) # log_out (config s) ''Error flushing events:'',
              Finished)"
  using assms by (simp add: flush_start_def flush_catch_def Let_def)

lemma flush_start_sends:
  assumes "eventBuffer s \<noteq> []" and "mode (config s) \<noteq> ''console''"
    and "hook_result (config s) (eventBuffer s) = Inr ()"
    and "apiEndpoint (config s) = Some u" and "u \<noteq> []"
  shows "\<exists>out. flush_start s
           = (s\<lparr>eventBuffer := []\<rparr>, out @ [FetchPost u (eventBuffer s)],
              Awaiting (eventBuffer s) (Some u))"
  using assms
  by (auto simp add: flush_start_def Let_def sendEvents_start_def truthy_def hook_result_def
      or_empty_def split: option.splits)

lemma flush_resume_failed:
  assumes "failed outcome"
  shows "flush_resume outcome (Awaiting batch (Some u)) s2
           = (s2\<lparr>eventBuffer := batch @ eventBuffer s2\<rparr>,
              log_out (config s2) ''Error flushing events:'')"
  using assms
  by (simp add: flush_resume_def sendEvents_result_def failed_def flush_catch_def
      split: send_outcome.splits)


section \<open>Properties of delivery\<close>

text \<open>
  Claim C10. In console mode the resolved endpoint is \<^verbatim>\<open>null\<close>, at construction and for
  any configuration; a flush empties the buffer and finishes without suspending, and what
  it does to the outside contains neither a call of the \<open>onFlush\<close> hook nor a request: the
  batch is neither delivered nor put back.
\<close>

theorem console_mode_discards_batch:
  assumes "mode (config s) = ''console''"
  shows "getEndpoint (config s) = None
       \<and> (\<forall>h opts inst. constructor h opts = Inr inst \<and> mode (config inst) = ''console''
             \<longrightarrow> apiEndpoint (config inst) = None)
       \<and> fst (flush_start s) = s\<lparr>eventBuffer := []\<rparr>
       \<and> snd (snd (flush_start s)) = Finished
       \<and> (\<forall>b. HookCall b \<notin> set (fst (snd (flush_start s))))
       \<and> (\<forall>u b. FetchPost u b \<notin> set (fst (snd (flush_start s))))
       \<and> (\<forall>outcome. flush_resume outcome (snd (snd (flush_start s))) (fst (flush_start s))
             = (s\<lparr>eventBuffer := []\<rparr>, []))"
proof -
  have "apiEndpoint (config inst) = None"
    if "constructor h opts = Inr inst \<and> mode (config inst) = ''console''" for h opts inst
    using that constructor_config [of h opts inst] by (auto simp add: getEndpoint_def)
  then have c: "\<forall>h opts inst. constructor h opts = Inr inst \<and> mode (config inst) = ''console''
             \<longrightarrow> apiEndpoint (config inst) = None"
    by blast
  have f: "getEndpoint (config s) = None
       \<and> fst (flush_start s) = s\<lparr>eventBuffer := []\<rparr>
       \<and> snd (snd (flush_start s)) = Finished
       \<and> (\<forall>b. HookCall b \<notin> set (fst (snd (flush_start s))))
       \<and> (\<forall>u b. FetchPost u b \<notin> set (fst (snd (flush_start s))))
       \<and> (\<forall>outcome. flush_resume outcome (snd (snd (flush_start s))) (fst (flush_start s))
             = (s\<lparr>eventBuffer := []\<rparr>, []))"
    using assms
    by (cases "eventBuffer s = []")
       (simp_all add: getEndpoint_def flush_start_def Let_def logConsole_def flush_resume_def)
  from c f show ?thesis by blast
qed

theorem console_mode_discards_batch_witness:
  "eventBuffer (fst (flush_start
       (sample_tracker ''console''
          [sample_event ''A'', sample_event ''B'', sample_event ''C'']))) = []
   \<and> snd (snd (flush_start
       (sample_tracker ''console''
          [sample_event ''A'', sample_event ''B'', sample_event ''C'']))) = Finished
   \<and> (case constructor page0 (no_options\<lparr>opt_apiEndpoint := Some ''/track''\<rparr>) of
         Inl e \<Rightarrow> False
       | Inr inst \<Rightarrow> mode (config inst) = ''console'' \<and> apiEndpoint (config inst) = None)"
proof -
  let ?s = "sample_tracker ''console''
              [sample_event ''A'', sample_event ''B'', sample_event ''C'']"
  have m: "mode (config ?s) = ''console''" by (simp add: sample_tracker_def)
  note w = console_mode_discards_batch [OF m]
  obtain inst where i: "constructor page0 (no_options\<lparr>opt_apiEndpoint := Some ''/track''\<rparr>)
      = Inr inst"
    by (simp add: constructor_def Let_def)
  then have "mode (config inst) = ''console''"
    by (auto simp add: constructor_def Let_def merge_options_def no_options_def default_or_def)
  with w i show ?thesis by simp
qed


section \<open>Facts about capture\<close>

lemma js_ge_nat [simp]: "js_ge m (Num (of_nat n)) \<longleftrightarrow> n \<le> m"
  by (simp add: js_ge_def)

lemma js_ge_mono: "js_ge m x \<Longrightarrow> m \<le> n \<Longrightarrow> js_ge n x"
  by (cases x) (simp_all add: js_ge_def)

lemma make_event_buffer [simp]:
  "make_event h (s\<lparr>eventBuffer := b\<rparr>) type data = make_event h s type data"
  by (simp add: make_event_def)

lemma track_below_capacity:
  assumes "isTrackingEnabled s"
    and "\<not> js_ge (Suc (length (eventBuffer s))) (bufferSize (config s))"
  shows "fst (track h type data s)
           = s\<lparr>eventBuffer := eventBuffer s @ [make_event h s type data]\<rparr>"
    and "snd (snd (track h type data s)) = []"
  using assms by (simp_all add: track_def Let_def)

lemma track_at_capacity:
  assumes "isTrackingEnabled s"
    and "js_ge (Suc (length (eventBuffer s))) (bufferSize (config s))"
  shows "fst (track h type data s)
           = fst (flush_start (s\<lparr>eventBuffer := eventBuffer s @ [make_event h s type data]\<rparr>))"
    and "snd (snd (track h type data s))
           = [snd (snd (flush_start
                (s\<lparr>eventBuffer := eventBuffer s @ [make_event h s type data]\<rparr>)))]"
  using assms by (simp_all add: track_def Let_def split: prod.splits)

lemma track_all_below_capacity:
  assumes "isTrackingEnabled s"
    and "\<not> js_ge (length (eventBuffer s) + length calls) (bufferSize (config s))"
  shows "track_all h calls s
           = (s\<lparr>eventBuffer := eventBuffer s
                  @ map (\<lambda>c. make_event h s (fst c) (snd c)) calls\<rparr>, [])"
  using assms
proof (induction calls arbitrary: s)
  case Nil
  then show ?case by simp
next
  case (Cons c calls)
  obtain type data where c: "c = (type, data)" by (cases c)
  let ?s1 = "s\<lparr>eventBuffer := eventBuffer s @ [make_event h s type data]\<rparr>"
  from Cons.prems(2)
  have below: "\<not> js_ge (Suc (length (eventBuffer s))) (bufferSize (config s))"
    by (auto dest: js_ge_mono [where n = "length (eventBuffer s) + length (c # calls)"])
  obtain out where t: "track h type data s = (?s1, out, [])"
    using track_below_capacity [OF Cons.prems(1) below, of h type data]
    by (cases "track h type data s") simp
  have "track_all h calls ?s1
          = (?s1\<lparr>eventBuffer := eventBuffer ?s1
                  @ map (\<lambda>c. make_event h ?s1 (fst c) (snd c)) calls\<rparr>, [])"
    using Cons.prems by (intro Cons.IH) simp_all
  with t c show ?case by simp
qed

lemma track_all_append:
  "track_all h (xs @ ys) s =
     (case track_all h xs s of
        (s1, tasks) \<Rightarrow> (case track_all h ys s1 of (s2, tasks2) \<Rightarrow> (s2, tasks @ tasks2)))"
  by (induction h xs s rule: track_all.induct) (simp_all split: prod.splits)

lemma track_all_crossing:
  assumes "isTrackingEnabled s"
    and "\<not> js_ge (length (eventBuffer s) + length calls) (bufferSize (config s))"
    and "js_ge (Suc (length (eventBuffer s) + length calls)) (bufferSize (config s))"
  shows "snd (track_all h (calls @ [(type, data)]) s)
           = [snd (snd (flush_start
                (s\<lparr>eventBuffer := eventBuffer s
                     @ map (\<lambda>c. make_event h s (fst c) (snd c)) (calls @ [(type, data)])\<rparr>)))]"
proof -
  let ?s1 = "s\<lparr>eventBuffer := eventBuffer s
               @ map (\<lambda>c. make_event h s (fst c) (snd c)) calls\<rparr>"
  have a: "track_all h calls s = (?s1, [])"
    using assms(1,2) by (rule track_all_below_capacity)
  have "isTrackingEnabled ?s1"
    and "js_ge (Suc (length (eventBuffer ?s1))) (bufferSize (config ?s1))"
    using assms(1,3) by simp_all
  from track_at_capacity(2) [OF this, of h type data]
  have "snd (snd (track h type data ?s1))
          = [snd (snd (flush_start
               (s\<lparr>eventBuffer := eventBuffer s
                    @ map (\<lambda>c. make_event h s (fst c) (snd c)) (calls @ [(type, data)])\<rparr>)))]"
    by simp
  then show ?thesis
    by (cases "track h type data ?s1") (simp add: track_all_append a)
qed

lemma fl_zero [simp]: "fl 0 = Num 0"
  by (simp add: fl_def)

lemma scrollPercentage_zero_extent:
  "scrollHeight v = innerHeight v \<Longrightarrow> scrollPercentage v \<in> {NaN, PosInfinity, NegInfinity}"
  by (simp add: scrollPercentage_def js_or_def Math_round_def Let_def signed_inf_def)

text \<open>
  Finite quotients are rounded as doubles are: at the scroll position 23 of the extent 40
  the exact percentage is 57.5, the doubles give 57.49999999999999, and the handler
  reports 57.
\<close>

lemma scrollPercentage_rounds_as_doubles:
  "scrollPercentage \<lparr>pageYOffset = 23, pageXOffset = 0, scrollTop = 23, scrollLeft = 0,
                     scrollHeight = 840, innerHeight = 800\<rparr> = Num 57"
  by code_simp


text \<open>
  The events that \<open>track\<close> appends while a request is in flight are the newcomers of a
  failed flush: if the request fails, the buffer is the batch followed by them.
\<close>

lemma flush_failure_after_tracked_newcomers:
  assumes "isTrackingEnabled s" and "mode (config s) \<noteq> ''console''"
    and "eventBuffer s = batch" and "batch \<noteq> []"
    and "hook_result (config s) batch = Inr ()"
    and "apiEndpoint (config s) = Some u" and "u \<noteq> []"
    and "\<not> js_ge (length calls) (bufferSize (config s))"
    and "failed outcome"
  shows "eventBuffer (fst (flush_resume outcome (snd (snd (flush_start s)))
                            (fst (track_all h calls (fst (flush_start s))))))
           = batch @ map (\<lambda>c. make_event h s (fst c) (snd c)) calls"
proof -
  let ?s1 = "s\<lparr>eventBuffer := []\<rparr>"
  from assms flush_start_sends [of s u]
  have st: "fst (flush_start s) = ?s1"
    and task: "snd (snd (flush_start s)) = Awaiting batch (Some u)"
    by auto
  have "track_all h calls ?s1
          = (?s1\<lparr>eventBuffer := eventBuffer ?s1
                  @ map (\<lambda>c. make_event h ?s1 (fst c) (snd c)) calls\<rparr>, [])"
    using assms(1,8) by (intro track_all_below_capacity) simp_all
  then show ?thesis
    using assms(9) by (simp add: st task flush_resume_failed)
qed


section \<open>Properties of failed delivery\<close>

text \<open>
  Claim C4, as stated, fails when a second flush starts during the attempt. With
  \<open>bufferSize\<close> 3, tracking \<open>A\<close>, \<open>B\<close>, \<open>C\<close> starts a flush of \<open>[A, B, C]\<close>, and tracking \<open>D\<close>, \<open>E\<close>,
  \<open>F\<close> while its request is in flight starts a flush of \<open>[D, E, F]\<close>. When the first request
  is rejected the buffer is \<open>[A, B, C]\<close>, without the three events appended during the
  attempt; when the second is rejected too the buffer is \<open>[D, E, F, A, B, C]\<close>, the newer
  events in front of the older ones.
\<close>

theorem flush_overlap_requeues_out_of_order:
  "snd first_three
     = [Awaiting [sample_event ''A'', sample_event ''B'', sample_event ''C''] (Some ''/track'')]
   \<and> snd next_three
     = [Awaiting [sample_event ''D'', sample_event ''E'', sample_event ''F''] (Some ''/track'')]
   \<and> eventBuffer (fst (flush_resume FetchRejected
         (Awaiting [sample_event ''A'', sample_event ''B'', sample_event ''C''] (Some ''/track''))
         (fst next_three)))
     = [sample_event ''A'', sample_event ''B'', sample_event ''C'']
   \<and> eventBuffer (fst (flush_resume FetchRejected
         (Awaiting [sample_event ''D'', sample_event ''E'', sample_event ''F''] (Some ''/track''))
         (fst (flush_resume FetchRejected
            (Awaiting [sample_event ''A'', sample_event ''B'', sample_event ''C''] (Some ''/track''))
            (fst next_three)))))
     = [sample_event ''D'', sample_event ''E'', sample_event ''F'',
        sample_event ''A'', sample_event ''B'', sample_event ''C'']"
  by (simp add: first_three_def next_three_def track_def Let_def sample_tracker_def js_ge_def
      flush_start_def sendEvents_start_def truthy_def or_empty_def make_event_def
      sample_event_def page0_def flush_resume_def sendEvents_result_def flush_catch_def)

text \<open>
  Claim C4, amended. Let a flush drain a non-empty batch in a mode other than console
  mode. If the \<open>onFlush\<close> hook throws, the flush ends at once with the batch back in the
  buffer. If the hook returns (or there is none) and a request is sent to the endpoint,
  the flush is suspended with the buffer empty; when the request then fails, by a
  rejected \<^verbatim>\<open>fetch\<close> or a status outside 200..299, the batch is put, in its order, in front
  of whatever the buffer holds at that time. That is the batch followed by the events
  appended during the attempt when no other flush has started meanwhile: when nothing but
  \<open>track\<close> is called during the attempt and the events tracked are fewer than \<open>bufferSize\<close>.
  In every case the flush returns a state; no exception leaves it.
\<close>

theorem flush_failure_requeues_in_front:
  assumes "eventBuffer s = batch" and "batch \<noteq> []" and "mode (config s) \<noteq> ''console''"
  shows "(\<forall>hook e. onFlush (config s) = Some hook \<and> hook batch = Inl e \<longrightarrow>
            fst (flush_start s) = s \<and> snd (snd (flush_start s)) = Finished)
       \<and> (\<forall>u. hook_result (config s) batch = Inr () \<and> apiEndpoint (config s) = Some u
               \<and> u \<noteq> [] \<longrightarrow>
            fst (flush_start s) = s\<lparr>eventBuffer := []\<rparr>
            \<and> snd (snd (flush_start s)) = Awaiting batch (Some u)
            \<and> (\<forall>outcome s2. failed outcome \<longrightarrow>
                 eventBuffer (fst (flush_resume outcome (Awaiting batch (Some u)) s2))
                   = batch @ eventBuffer s2)
            \<and> (\<forall>outcome h calls.
                 failed outcome \<and> isTrackingEnabled s
                 \<and> \<not> js_ge (length calls) (bufferSize (config s)) \<longrightarrow>
                 eventBuffer (fst (flush_resume outcome (Awaiting batch (Some u))
                                    (fst (track_all h calls (s\<lparr>eventBuffer := []\<rparr>)))))
                   = batch @ map (\<lambda>c. make_event h s (fst c) (snd c)) calls))"
proof (intro conjI allI impI)
  fix hook e
  assume "onFlush (config s) = Some hook \<and> hook batch = Inl e"
  with assms flush_start_hook_throws [of s hook e]
  show "fst (flush_start s) = s" "snd (snd (flush_start s)) = Finished" by simp_all
next
  fix u
  assume "hook_result (config s) batch = Inr () \<and> apiEndpoint (config s) = Some u \<and> u \<noteq> []"
  with assms flush_start_sends [of s u]
  show "fst (flush_start s) = s\<lparr>eventBuffer := []\<rparr>"
    "snd (snd (flush_start s)) = Awaiting batch (Some u)"
    by auto
next
  fix u outcome and s2 :: chyavan
  assume "failed outcome"
  then show "eventBuffer (fst (flush_resume outcome (Awaiting batch (Some u)) s2))
               = batch @ eventBuffer s2"
    by (simp add: flush_resume_failed)
next
  fix u outcome and h :: host and calls :: "(string \<times> (string \<times> jsval) list) list"
  assume u: "hook_result (config s) batch = Inr () \<and> apiEndpoint (config s) = Some u \<and> u \<noteq> []"
    and c: "failed outcome \<and> isTrackingEnabled s
            \<and> \<not> js_ge (length calls) (bufferSize (config s))"
  from assms u flush_start_sends [of s u]
  have st: "fst (flush_start s) = s\<lparr>eventBuffer := []\<rparr>"
    and task: "snd (snd (flush_start s)) = Awaiting batch (Some u)"
    by auto
  from flush_failure_after_tracked_newcomers [of s batch u calls outcome h] assms u c
  show "eventBuffer (fst (flush_resume outcome (Awaiting batch (Some u))
                            (fst (track_all h calls (s\<lparr>eventBuffer := []\<rparr>)))))
          = batch @ map (\<lambda>c. make_event h s (fst c) (snd c)) calls"
    by (simp add: st task)
qed

theorem flush_failure_requeues_in_front_witness:
  "eventBuffer (fst (flush_resume (Response 500 True)
       (Awaiting [sample_event ''A'', sample_event ''B'', sample_event ''C''] (Some ''/track''))
       (fst (track_all page0 [(''D'', []), (''E'', [])]
          ((sample_tracker ''self-hosted''
              [sample_event ''A'', sample_event ''B'', sample_event ''C''])
           \<lparr>eventBuffer := []\<rparr>)))))
     = [sample_event ''A'', sample_event ''B'', sample_event ''C'',
        sample_event ''D'', sample_event ''E'']
   \<and> snd (snd (flush_start
       (sample_tracker ''self-hosted''
          [sample_event ''A'', sample_event ''B'', sample_event ''C''])))
     = Awaiting [sample_event ''A'', sample_event ''B'', sample_event ''C''] (Some ''/track'')
   \<and> eventBuffer (fst (flush_resume FetchRejected
       (Awaiting [sample_event ''A'', sample_event ''B'', sample_event ''C''] (Some ''/track''))
       (sample_tracker ''self-hosted'' [sample_event ''D''])))
     = [sample_event ''A'', sample_event ''B'', sample_event ''C'', sample_event ''D'']
   \<and> eventBuffer (fst (flush_start
       ((sample_tracker ''self-hosted''
           [sample_event ''A'', sample_event ''B'', sample_event ''C''])
        \<lparr>config := (config (sample_tracker ''self-hosted'' []))
                      \<lparr>onFlush := Some (\<lambda>events. Inl HookError)\<rparr>\<rparr>)))
     = [sample_event ''A'', sample_event ''B'', sample_event ''C'']"
proof -
  let ?batch = "[sample_event ''A'', sample_event ''B'', sample_event ''C'']"
  let ?s = "sample_tracker ''self-hosted'' ?batch"
  let ?t = "?s\<lparr>config := (config (sample_tracker ''self-hosted'' []))
                      \<lparr>onFlush := Some (\<lambda>events. Inl HookError)\<rparr>\<rparr>"
  have f: "failed (Response 500 True)" "failed FetchRejected"
    by (simp_all add: failed_def response_ok_def)
  have "eventBuffer ?s = ?batch" "?batch \<noteq> []" "mode (config ?s) \<noteq> ''console''"
    by (simp_all add: sample_tracker_def)
  note sent = flush_failure_requeues_in_front [OF this, THEN conjunct2, rule_format]
  have hr: "hook_result (config ?s) ?batch = Inr () \<and> apiEndpoint (config ?s) = Some ''/track''
            \<and> ''/track'' \<noteq> []"
    by (simp add: sample_tracker_def hook_result_def)
  note r = sent [OF hr]
  note a = r [THEN conjunct2, THEN conjunct1]
  note b = r [THEN conjunct2, THEN conjunct2, THEN conjunct1, rule_format]
  note n = r [THEN conjunct2, THEN conjunct2, THEN conjunct2, rule_format]
  have "eventBuffer ?t = ?batch" "?batch \<noteq> []" "mode (config ?t) \<noteq> ''console''"
    by (simp_all add: sample_tracker_def)
  from flush_failure_requeues_in_front [OF this]
  have c: "fst (flush_start ?t) = ?t"
    by (simp add: sample_tracker_def)
  have d: "eventBuffer (sample_tracker ''self-hosted'' [sample_event ''D''])
             = [sample_event ''D'']"
    by (simp add: sample_tracker_def)
  have m: "make_event page0 ?s name [] = sample_event name" for name
    by (simp add: make_event_def sample_event_def sample_tracker_def page0_def)
  have two: "failed (Response 500 True) \<and> isTrackingEnabled ?s
             \<and> \<not> js_ge (length [(''D'', []), (''E'', [])]) (bufferSize (config ?s))"
    by (simp add: f sample_tracker_def js_ge_def)
  have e: "eventBuffer (fst (flush_resume (Response 500 True) (Awaiting ?batch (Some ''/track''))
             (fst (track_all page0 [(''D'', []), (''E'', [])] (?s\<lparr>eventBuffer := []\<rparr>)))))
           = ?batch @ [sample_event ''D'', sample_event ''E'']"
    unfolding n [OF two] by (simp add: m)
  show ?thesis
    unfolding a c e by (simp add: b [OF f(2)] d) (simp add: sample_tracker_def)
qed


section \<open>Properties of capture\<close>

text \<open>
  Claim C5. A call of \<open>track\<close> on an enabled tracker puts the new event at the tail of the
  buffer. If the buffer then holds at least \<open>bufferSize\<close> events, the call invokes \<open>flush\<close>
  exactly once, on the buffer with the new event at its tail; otherwise it invokes no
  flush and leaves the buffer with the new event appended. Hence a sequence of calls
  that reaches the capacity with its last call invokes exactly one flush, which is given
  all the events.
\<close>

theorem track_flushes_once_at_capacity:
  assumes "isTrackingEnabled s"
  shows "(let s1 = s\<lparr>eventBuffer := eventBuffer s @ [make_event h s type data]\<rparr>
          in if js_ge (length (eventBuffer s) + 1) (bufferSize (config s))
             then fst (track h type data s) = fst (flush_start s1)
                \<and> snd (snd (track h type data s)) = [snd (snd (flush_start s1))]
             else fst (track h type data s) = s1 \<and> snd (snd (track h type data s)) = [])
       \<and> (\<forall>calls.
            \<not> js_ge (length (eventBuffer s) + length calls) (bufferSize (config s))
            \<and> js_ge (length (eventBuffer s) + length calls + 1) (bufferSize (config s))
            \<longrightarrow> length (snd (track_all h (calls @ [(type, data)]) s)) = 1)"
  using assms
  by (simp add: Let_def track_below_capacity track_at_capacity track_all_crossing)

theorem track_flushes_once_at_capacity_witness:
  "eventBuffer (fst (track page0 ''custom'' [] (sample_tracker ''self-hosted'' [sample_event ''A''])))
     = [sample_event ''A'', sample_event ''custom'']
   \<and> snd (snd (track page0 ''custom'' [] (sample_tracker ''self-hosted'' [sample_event ''A''])))
     = []
   \<and> snd (snd (track page0 ''custom'' []
        (sample_tracker ''self-hosted'' [sample_event ''A'', sample_event ''B''])))
     = [Awaiting [sample_event ''A'', sample_event ''B'', sample_event ''custom'']
          (Some ''/track'')]
   \<and> length (snd (track_all page0 [(''a'', []), (''b'', []), (''c'', [])]
        (sample_tracker ''self-hosted'' []))) = 1"
proof -
  have e: "isTrackingEnabled (sample_tracker ''self-hosted'' b)" for b
    by (simp add: sample_tracker_def)
  note defs = Let_def sample_tracker_def js_ge_def flush_start_def sendEvents_start_def
    truthy_def or_empty_def make_event_def sample_event_def page0_def
  from track_flushes_once_at_capacity [OF e, of "[sample_event ''A'']" page0 "''custom''" "[]"]
  have "eventBuffer (fst (track page0 ''custom'' []
            (sample_tracker ''self-hosted'' [sample_event ''A''])))
          = [sample_event ''A'', sample_event ''custom'']
        \<and> snd (snd (track page0 ''custom'' []
            (sample_tracker ''self-hosted'' [sample_event ''A'']))) = []"
    by (simp add: defs)
  moreover
  from track_flushes_once_at_capacity
    [OF e, of "[sample_event ''A'', sample_event ''B'']" page0 "''custom''" "[]"]
  have "snd (snd (track page0 ''custom'' []
            (sample_tracker ''self-hosted'' [sample_event ''A'', sample_event ''B''])))
          = [Awaiting [sample_event ''A'', sample_event ''B'', sample_event ''custom'']
               (Some ''/track'')]"
    by (simp add: defs)
  moreover
  from track_flushes_once_at_capacity
    [OF e, of "[]" page0 "''c''" "[]", THEN conjunct2, rule_format,
     of "[(''a'', []), (''b'', [])]"]
  have "length (snd (track_all page0 ([(''a'', []), (''b'', [])] @ [(''c'', [])])
            (sample_tracker ''self-hosted'' []))) = 1"
    by (simp add: sample_tracker_def js_ge_def)
  ultimately show ?thesis by simp
qed

text \<open>
  Claim C2 says that the scroll handler emits the percentage 0 whenever the maximum
  scrollable extent \<open>scrollHeight - innerHeight\<close> is zero or negative. The code divides by
  the extent without a guard, so the claim does not hold of it: on a page whose document is exactly as high as the
  window (\<open>scrollHeight\<close> = \<open>innerHeight\<close> = 800, so \<open>maxScrollTop\<close> = 0) and which is
  scrolled sideways, the handler computes \<open>0 / 0\<close> and the scroll event that it puts in
  the buffer has the percentage \<open>NaN\<close>.
\<close>

theorem scrollHandler_zero_extent_emits_NaN:
  "scrollPercentage \<lparr>pageYOffset = 0, pageXOffset = 40, scrollTop = 0, scrollLeft = 40,
                     scrollHeight = 800, innerHeight = 800\<rparr> = NaN
   \<and> map ev_data (eventBuffer (fst (scrollHandler page0
        \<lparr>pageYOffset = 0, pageXOffset = 40, scrollTop = 0, scrollLeft = 40,
          scrollHeight = 800, innerHeight = 800\<rparr>
        (sample_tracker ''self-hosted'' []))))
     = [[(''x'', JNum (Num 40)), (''y'', JNum (Num 0)), (''percentage'', JNum NaN)]]"
  by (simp add: scrollHandler_def scrollPercentage_def js_or_def Math_round_def track_def
      Let_def sample_tracker_def js_ge_def make_event_def)


section \<open>Facts about debouncing\<close>

lemma debounce_owns:
  assumes "owns st"
  shows "armed (debounce delay now args st) = [(next_id st, now + delay, args)]"
    and "timeout (debounce delay now args st) = Some (next_id st)"
    and "next_id (debounce delay now args st) = Suc (next_id st)"
proof -
  have "filter (\<lambda>x. fst x \<noteq> i) (armed st) = []" if "timeout st = Some i" for i
    using assms that by (auto simp: owns_def filter_empty_conv)
  moreover have "armed st = []" if "timeout st = None"
    using assms that by (cases "armed st") (auto simp: owns_def)
  ultimately show "armed (debounce delay now args st) = [(next_id st, now + delay, args)]"
    by (cases "timeout st") (simp_all add: debounce_def setTimeout_def clearTimeout_def)
  show "timeout (debounce delay now args st) = Some (next_id st)"
    by (cases "timeout st") (simp_all add: debounce_def setTimeout_def clearTimeout_def)
  show "next_id (debounce delay now args st) = Suc (next_id st)"
    by (cases "timeout st") (simp_all add: debounce_def setTimeout_def clearTimeout_def)
qed

lemma owns_debounce: "owns st \<Longrightarrow> owns (debounce delay now args st)"
  by (simp add: owns_def debounce_owns [unfolded owns_def])

lemma owns_run_timers: "owns st \<Longrightarrow> owns (snd (run_timers now st))"
  by (simp add: owns_def run_timers_def)

lemma simulate_pending:
  assumes "armed st = [(i, t0 + delay, a0)]" and "timeout st = Some i"
  shows "simulate delay calls st = map (\<lambda>c. (fst c + delay, snd c)) (final_calls delay ((t0, a0) # calls))"
  using assms
proof (induction calls arbitrary: st i t0 a0)
  case Nil
  then show ?case by simp
next
  case (Cons c calls)
  obtain t a where c: "c = (t, a)" by (cases c)
  have o: "owns st" using Cons.prems by (simp add: owns_def)
  show ?case
  proof (cases "t0 + delay \<le> t")
    case True
    with Cons.prems have r: "run_timers t st = ([(t0 + delay, a0)], st\<lparr>armed := []\<rparr>)"
      by (simp add: run_timers_def)
    have o1: "owns (st\<lparr>armed := []\<rparr>)" by (simp add: owns_def)
    note d = debounce_owns [OF o1, of delay t a]
    have "simulate delay calls (debounce delay t a (st\<lparr>armed := []\<rparr>))
          = map (\<lambda>c. (fst c + delay, snd c)) (final_calls delay ((t, a) # calls))"
      by (rule Cons.IH) (simp_all add: d)
    with True r c show ?thesis by simp
  next
    case False
    with Cons.prems have r: "run_timers t st = ([], st)"
      by (simp add: run_timers_def)
    note d = debounce_owns [OF o, of delay t a]
    have "simulate delay calls (debounce delay t a st)
          = map (\<lambda>c. (fst c + delay, snd c)) (final_calls delay ((t, a) # calls))"
      by (rule Cons.IH) (simp_all add: d)
    with False r c show ?thesis by simp
  qed
qed

lemma simulate_fresh:
  fixes calls :: "(nat \<times> 'a) list"
  shows "simulate delay calls (fresh n) = map (\<lambda>c. (fst c + delay, snd c)) (final_calls delay calls)"
proof (cases calls)
  case Nil
  then show ?thesis by (simp add: fresh_def)
next
  case (Cons c cs)
  obtain t a where c: "c = (t, a)" by (cases c)
  have r: "run_timers t (fresh n :: 'a debounce_state) = ([], fresh n)"
    by (simp add: run_timers_def fresh_def)
  have o: "owns (fresh n :: 'a debounce_state)" by (simp add: owns_def fresh_def)
  note d = debounce_owns [OF o, of delay t a]
  have "simulate delay cs (debounce delay t a (fresh n))
        = map (\<lambda>c. (fst c + delay, snd c)) (final_calls delay ((t, a) # cs))"
    by (rule simulate_pending) (simp_all add: d)
  with Cons c r show ?thesis by simp
qed

lemma final_calls_burst: "calls \<noteq> [] \<Longrightarrow> burst delay calls \<Longrightarrow> final_calls delay calls = [last calls]"
  by (induction delay calls rule: final_calls.induct) auto

section \<open>Properties of debouncing\<close>

text \<open>
  Claim C6. A call of a debounced function cancels the timer that is pending and arms one
  timer with the arguments of this call, due \<open>delay\<close> milliseconds later. Hence the wrapped
  function is called once for every call that no other call follows within \<open>delay\<close>
  milliseconds, with the arguments of that call and \<open>delay\<close> milliseconds after it; a
  burst of calls produces exactly one call of the wrapped function, with the arguments of
  the last call of the burst. Calls at 0, 100, 150 and 200 with the delay 400 produce one
  call, with the arguments given at 200, at 600.
\<close>

theorem debounce_one_emission_per_quiet_period:
  fixes calls :: "(nat \<times> 'a) list"
  shows "(owns st \<longrightarrow>
            armed (debounce delay now args st) = [(next_id st, now + delay, args)])
     \<and> simulate delay calls (fresh n)
         = map (\<lambda>c. (fst c + delay, snd c)) (final_calls delay calls)
     \<and> (calls \<noteq> [] \<and> burst delay calls \<longrightarrow>
          simulate delay calls (fresh n) = [(fst (last calls) + delay, snd (last calls))])"
proof (intro conjI impI)
  assume "owns st"
  then show "armed (debounce delay now args st) = [(next_id st, now + delay, args)]"
    by (rule debounce_owns)
next
  show "simulate delay calls (fresh n)
          = map (\<lambda>c. (fst c + delay, snd c)) (final_calls delay calls)"
    by (rule simulate_fresh)
next
  assume "calls \<noteq> [] \<and> burst delay calls"
  then have "final_calls delay calls = [last calls]"
    by (simp add: final_calls_burst)
  then show "simulate delay calls (fresh n) = [(fst (last calls) + delay, snd (last calls))]"
    by (simp add: simulate_fresh)
qed

theorem debounce_one_emission_per_quiet_period_witness:
  "armed (debounce 400 200 ''abcd''
       \<lparr>timeout = Some 2, next_id = 3, armed = [(2, 550, ''abc'')]\<rparr>)
     = [(3, 600, ''abcd'')]
   \<and> simulate 400 [(0, ''a''), (100, ''ab''), (150, ''abc''), (200, ''abcd'')] (fresh 0)
     = [(600, ''abcd'')]"
  using debounce_one_emission_per_quiet_period
    [of "\<lparr>timeout = Some 2, next_id = 3, armed = [(2, 550, ''abc'')]\<rparr>" 400 200 "''abcd''"
        "[(0, ''a''), (100, ''ab''), (150, ''abc''), (200, ''abcd'')]" 0]
  by (simp add: owns_def)

end
